theory Spec2Isabelle
  imports Complex_Main "HOL-Library.Sublist"
begin

section \<open>JavaScript values\<close>

text \<open>
  The vendor's responses are parsed JSON and the code inspects them by duck typing
  (\<^verbatim>\<open>result.data.done\<close>, \<^verbatim>\<open>response.world_id || response.id\<close>), so they are
  modelled as untyped JavaScript values. \<open>JUndefined\<close> is the value of a missing
  property. Numbers are restricted to integers, which \<open>ToString\<close> prints in plain decimal
  notation. An object is an association list with each key listed once.
\<close>

datatype jsval =
    JUndefined
  | JNull
  | JBool bool
  | JNum int
  | JStr string
  | JArr "jsval list"
  | JObj "(string \<times> jsval) list"

text \<open>The errors of the taxonomy, with the vendor data the code attaches to them.\<close>

datatype error =
    TypeError
  | NetworkError
  | SyntaxError
  | UploadFailed string jsval
  | SubmissionFailed nat jsval
  | GenerationFailed jsval
  | GenerationTimedOut
  | FileError string

text \<open>Truthiness as used by \<^verbatim>\<open>if (x)\<close>, \<^verbatim>\<open>!x\<close>, \<^verbatim>\<open>x || y\<close> and \<^verbatim>\<open>x ? a : b\<close>.\<close>

fun truthy :: "jsval \<Rightarrow> bool" where
  "truthy JUndefined = False"
| "truthy JNull = False"
| "truthy (JBool b) = b"
| "truthy (JNum n) = (n \<noteq> 0)"
| "truthy (JStr s) = (s \<noteq> [])"
| "truthy (JArr xs) = True"
| "truthy (JObj kvs) = True"

text \<open>\<^verbatim>\<open>a || b\<close> on values.\<close>

definition js_or :: "jsval \<Rightarrow> jsval \<Rightarrow> jsval" where
  "js_or a b = (if truthy a then a else b)"

text \<open>
  Property read \<^verbatim>\<open>v.k\<close>: a TypeError on \<^verbatim>\<open>undefined\<close> and \<^verbatim>\<open>null\<close>, the own
  property of an object, and \<^verbatim>\<open>undefined\<close> otherwise (none of the keys read by the code
  is a member of a primitive's or an array's prototype).
\<close>

fun get_prop :: "jsval \<Rightarrow> string \<Rightarrow> error + jsval" where
  "get_prop JUndefined k = Inl TypeError"
| "get_prop JNull k = Inl TypeError"
| "get_prop (JObj kvs) k = Inr (case map_of kvs k of Some v \<Rightarrow> v | None \<Rightarrow> JUndefined)"
| "get_prop v k = Inr JUndefined"

text \<open>Optional chaining \<^verbatim>\<open>v?.k\<close>.\<close>

fun get_opt :: "jsval \<Rightarrow> string \<Rightarrow> jsval" where
  "get_opt (JObj kvs) k = (case map_of kvs k of Some v \<Rightarrow> v | None \<Rightarrow> JUndefined)"
| "get_opt v k = JUndefined"

definition has_key :: "jsval \<Rightarrow> string \<Rightarrow> bool" where
  "has_key v k = (case v of JObj kvs \<Rightarrow> map_of kvs k \<noteq> None | _ \<Rightarrow> False)"

fun digits :: "nat \<Rightarrow> string" where
  "digits n = (if n < 10 then [''0123456789'' ! n]
     else digits (n div 10) @ [''0123456789'' ! (n mod 10)])"

declare digits.simps [simp del]

fun join_comma :: "string list \<Rightarrow> string" where
  "join_comma [] = []"
| "join_comma [s] = s"
| "join_comma (s # t # ss) = s @ '','' @ join_comma (t # ss)"

text \<open>String conversion as performed by a template literal \<^verbatim>\<open>`${v}`\<close>.\<close>

fun ToString :: "jsval \<Rightarrow> string" where
  "ToString JUndefined = ''undefined''"
| "ToString JNull = ''null''"
| "ToString (JBool b) = (if b then ''true'' else ''false'')"
| "ToString (JNum n) = (if n < 0 then ''-'' @ digits (nat (- n)) else digits (nat n))"
| "ToString (JStr s) = s"
| "ToString (JArr xs) =
     join_comma (map (\<lambda>v. if v = JUndefined \<or> v = JNull then [] else ToString v) xs)"
| "ToString (JObj kvs) = ''[object Object]''"

section \<open>Double-precision arithmetic of the azimuth computation\<close>

text \<open>
  JavaScript numbers are IEEE 754 doubles. The azimuth expression
  \<^verbatim>\<open>Math.round(i * angleStep)\<close> with \<^verbatim>\<open>angleStep = 360 / images.length\<close> rounds twice: the
  quotient and then the product. A non-negative finite double is modelled exactly, as a
  pair \<open>(m, e)\<close> standing for \<open>m * 2 ^ e\<close>; \<open>to_double p q\<close> is the double nearest to
  the rational \<open>p / q\<close>, with 53 significant bits and ties to even. The exponent range is
  not modelled: for array lengths below \<open>2 ^ 32\<close> every value here lies between
  \<open>2 ^ - 24\<close> and \<open>2 ^ 41\<close>, well inside the normal range.
\<close>

type_synonym double = "nat \<times> int"

definition dval :: "double \<Rightarrow> rat" where
  "dval d = of_nat (fst d) * 2 powi (snd d)"

fun bitlength :: "nat \<Rightarrow> nat" where
  "bitlength n = (if n = 0 then 0 else Suc (bitlength (n div 2)))"

declare bitlength.simps [simp del]

text \<open>The integer nearest to \<open>a / b\<close>, ties to the even one.\<close>

definition rne_div :: "nat \<Rightarrow> nat \<Rightarrow> nat" where
  "rne_div a b = (let d = a div b; r = a mod b in
     if 2 * r < b then d else if b < 2 * r then d + 1 else if even d then d else d + 1)"

text \<open>\<open>ge_pow2 k p q\<close> decides \<open>2 ^ k \<le> p / q\<close> on integers.\<close>

definition ge_pow2 :: "int \<Rightarrow> nat \<Rightarrow> nat \<Rightarrow> bool" where
  "ge_pow2 k p q = (if 0 \<le> k then 2 ^ nat k * q \<le> p else q \<le> 2 ^ nat (- k) * p)"

text \<open>The binary exponent of \<open>p / q\<close>: the \<open>k\<close> with \<open>2 ^ k \<le> p / q < 2 ^ (k + 1)\<close>.\<close>

definition binade :: "nat \<Rightarrow> nat \<Rightarrow> int" where
  "binade p q = (let k = int (bitlength p) - int (bitlength q) in
     if ge_pow2 k p q then k else k - 1)"

definition to_double :: "nat \<Rightarrow> nat \<Rightarrow> double" where
  "to_double p q = (if p = 0 then (0, 0) else
     let e = binade p q - 52 in
       (if 0 \<le> e then rne_div p (q * 2 ^ nat e) else rne_div (p * 2 ^ nat (- e)) q, e))"

text \<open>\<^verbatim>\<open>a / b\<close> on two integer-valued numbers (\<open>b\<close> positive).\<close>

definition js_div :: "nat \<Rightarrow> nat \<Rightarrow> double" where
  "js_div a b = to_double a b"

text \<open>\<^verbatim>\<open>i * d\<close> for an integer-valued \<open>i\<close> and a double \<open>d\<close>.\<close>

definition js_mul :: "nat \<Rightarrow> double \<Rightarrow> double" where
  "js_mul i d = (case d of (m, e) \<Rightarrow>
     if 0 \<le> e then to_double (i * m * 2 ^ nat e) 1 else to_double (i * m) (2 ^ nat (- e)))"

text \<open>\<^verbatim>\<open>Math.round\<close>: the nearest integer, a tie going towards plus infinity.\<close>

definition Math_round :: "double \<Rightarrow> int" where
  "Math_round d = (case d of (m, e) \<Rightarrow>
     if 0 \<le> e then int (m * 2 ^ nat e)
     else int ((2 * m + 2 ^ nat (- e)) div 2 ^ (nat (- e) + 1)))"

text \<open>\<^verbatim>\<open>const angleStep = 360 / imagePaths.length\<close>\<close>

definition angleStep :: "nat \<Rightarrow> double" where
  "angleStep n = js_div 360 n"






section \<open>The submission request of the web page\<close>

text \<open>
  The body that the page posts to its own endpoint \<^verbatim>\<open>/api/generate\<close>, typed as the page
  sends it: \<open>images\<close> is absent or an array of image objects, a direction is \<^verbatim>\<open>null\<close> or
  a string, an absent name is the empty string.
\<close>

record image =
  img_name :: string
  img_type :: string
  img_data :: string
  direction :: "string option"

record media =
  media_name :: string
  media_data :: string

record request_body =
  images :: "image list option"
  req_name :: string
  req_mode :: string
  inputType :: string
  layoutMode :: string
  video :: "media option"
  panorama :: "media option"

section \<open>The vendor, the network and the clock\<close>

text \<open>
  The vendor API is an environment: the answer to a call may depend on all earlier calls.
  A call either fails on the network (\<open>Rejected\<close>) or returns a status code and a body,
  which is JSON or some other text. The world records the clock (milliseconds) and every
  call with the time it was issued and its outcome.
\<close>

datatype body = Json jsval | Raw string

datatype call =
    MediaUpload string string
  | WorldsGenerate jsval
  | GetOperation string
  | ApiGenerate request_body
  | ApiStatus string
  | ApiWorld string

datatype outcome = Rejected | Resolved nat body

record env =
  vendor :: "call list \<Rightarrow> call \<Rightarrow> outcome"
  latency :: "call list \<Rightarrow> call \<Rightarrow> nat"
  readable :: "string \<Rightarrow> bool"

type_synonym entry = "nat \<times> call \<times> outcome"

record world =
  clock :: nat
  trace :: "entry list"

definition calls :: "world \<Rightarrow> call list" where
  "calls w = map (\<lambda>e. fst (snd e)) (trace w)"

definition request :: "env \<Rightarrow> call \<Rightarrow> world \<Rightarrow> outcome \<times> world" where
  "request E c w =
     (let r = vendor E (calls w) c in
        (r, w\<lparr>clock := clock w + latency E (calls w) c, trace := trace w @ [(clock w, c, r)]\<rparr>))"

text \<open>\<^verbatim>\<open>await new Promise(r => setTimeout(r, ms))\<close>\<close>

definition sleep :: "nat \<Rightarrow> world \<Rightarrow> world" where
  "sleep ms w = w\<lparr>clock := clock w + ms\<rparr>"

text \<open>The \<open>WorldsGenerate\<close> bodies sent so far.\<close>

fun generate_bodies :: "entry list \<Rightarrow> jsval list" where
  "generate_bodies [] = []"
| "generate_bodies ((t, WorldsGenerate b, r) # es) = b # generate_bodies es"
| "generate_bodies (e # es) = generate_bodies es"

section \<open>The command-line script generate-3d-tour.js\<close>

text \<open>
  \<^verbatim>\<open>apiRequest\<close> (lines 34-63) resolves with the status code and the parsed body,
  falling back to the raw text when the body is not JSON; a network error rejects.
\<close>

definition parsed_or_text :: "body \<Rightarrow> jsval" where
  "parsed_or_text b = (case b of Json v \<Rightarrow> v | Raw s \<Rightarrow> JStr s)"

definition apiRequest :: "env \<Rightarrow> call \<Rightarrow> world \<Rightarrow> (error + nat \<times> jsval) \<times> world" where
  "apiRequest E c w =
     (case request E c w of
        (Rejected, w1) \<Rightarrow> (Inl NetworkError, w1)
      | (Resolved st b, w1) \<Rightarrow> (Inr (st, parsed_or_text b), w1))"

subsection \<open>uploadFileRequest: the MIME type of an upload\<close>

text \<open>
  \<^verbatim>\<open>path.extname\<close> of Node.js (POSIX flavour), following its backwards scan over the
  path: \<open>extname_scan\<close> receives the characters still to be visited, last one first, so
  the index of the head is the length of the tail. The state variables are those of
  the library function; \<open>stopped\<close> stands for its \<^verbatim>\<open>break\<close>.
\<close>

record ext_state =
  startDot :: int
  startPart :: int
  endPos :: int
  matchedSlash :: bool
  preDotState :: int
  stopped :: bool

definition ext_init :: ext_state where
  "ext_init = \<lparr>startDot = - 1, startPart = 0, endPos = - 1, matchedSlash = True,
     preDotState = 0, stopped = False\<rparr>"

definition ext_step :: "char \<Rightarrow> int \<Rightarrow> ext_state \<Rightarrow> ext_state" where
  "ext_step code i s =
     (if code = CHR ''/'' then
        (if \<not> matchedSlash s then s\<lparr>startPart := i + 1, stopped := True\<rparr> else s)
      else
        let s1 = (if endPos s = - 1 then s\<lparr>endPos := i + 1, matchedSlash := False\<rparr> else s)
        in if code = CHR ''.'' then
             (if startDot s1 = - 1 then s1\<lparr>startDot := i\<rparr>
              else if preDotState s1 \<noteq> 1 then s1\<lparr>preDotState := 1\<rparr> else s1)
           else if startDot s1 \<noteq> - 1 then s1\<lparr>preDotState := - 1\<rparr> else s1)"

fun extname_scan :: "string \<Rightarrow> ext_state \<Rightarrow> ext_state" where
  "extname_scan [] s = s"
| "extname_scan (code # rest) s =
     (let s' = ext_step code (int (length rest)) s in
        if stopped s' then s' else extname_scan rest s')"

definition extname :: "string \<Rightarrow> string" where
  "extname path =
     (let s = extname_scan (rev path) ext_init in
        if startDot s = - 1 \<or> endPos s = - 1 \<or> preDotState s = 0 \<or>
           (preDotState s = 1 \<and> startDot s = endPos s - 1 \<and> startDot s = startPart s + 1)
        then []
        else drop (nat (startDot s)) (take (nat (endPos s)) path))"

text \<open>\<^verbatim>\<open>toLowerCase\<close> on the ASCII letters; file names are byte strings here.\<close>

definition toLowerCase_char :: "char \<Rightarrow> char" where
  "toLowerCase_char c =
     (case map_of (zip ''ABCDEFGHIJKLMNOPQRSTUVWXYZ'' ''abcdefghijklmnopqrstuvwxyz'') c of
        Some l \<Rightarrow> l | None \<Rightarrow> c)"

definition toLowerCase :: "string \<Rightarrow> string" where
  "toLowerCase s = map toLowerCase_char s"

definition mimeTypes :: "(string \<times> string) list" where
  "mimeTypes =
     [(''.jpg'', ''image/jpeg''), (''.jpeg'', ''image/jpeg''), (''.png'', ''image/png''),
      (''.webp'', ''image/webp''), (''.mp4'', ''video/mp4''), (''.mov'', ''video/quicktime''),
      (''.mkv'', ''video/x-matroska'')]"

text \<open>
  Lines 71-77: \<^verbatim>\<open>mimeTypes[ext] || 'application/octet-stream'\<close>. Every value of the
  table is a non-empty string, so the fallback applies exactly to the missing keys.
\<close>

definition mimeType :: "string \<Rightarrow> string" where
  "mimeType filePath =
     (let ext = toLowerCase (extname filePath) in
        case map_of mimeTypes ext of
          Some m \<Rightarrow> m
        | None \<Rightarrow> ''application/octet-stream'')"

text \<open>
  \<^verbatim>\<open>uploadFileRequest\<close> (lines 65-111): reads the file (a failure rejects before anything
  is sent) and posts it with the inferred Content-Type. The file's bytes are not modelled.
\<close>

definition uploadFileRequest :: "env \<Rightarrow> string \<Rightarrow> world \<Rightarrow> (error + nat \<times> jsval) \<times> world" where
  "uploadFileRequest E filePath w =
     (if \<not> readable E filePath then (Inl (FileError filePath), w)
      else apiRequest E (MediaUpload filePath (mimeType filePath)) w)"

subsection \<open>pollOperation\<close>

text \<open>
  Lines 113-133. The loop condition reads the clock; each iteration issues one status
  request and, when the job is not done, sleeps for the polling interval. The progress
  line written to the terminal is not modelled.
\<close>

definition pollInterval :: nat where
  "pollInterval = 5000"

function pollOperation_loop ::
  "env \<Rightarrow> jsval \<Rightarrow> nat \<Rightarrow> nat \<Rightarrow> world \<Rightarrow> (error + jsval) \<times> world" where
  "pollOperation_loop E operationId startTime maxWaitMs w =
     (if clock w - startTime < maxWaitMs then
        (case apiRequest E (GetOperation (ToString operationId)) w of
           (Inl e, w1) \<Rightarrow> (Inl e, w1)
         | (Inr (st, d), w1) \<Rightarrow>
             (case get_prop d ''done'' of
                Inl e \<Rightarrow> (Inl e, w1)
              | Inr dn \<Rightarrow>
                  if truthy dn then
                    (case get_prop d ''error'' of
                       Inl e \<Rightarrow> (Inl e, w1)
                     | Inr er \<Rightarrow>
                         if truthy er then (Inl (GenerationFailed er), w1)
                         else (Inr d, w1))
                  else pollOperation_loop E operationId startTime maxWaitMs
                         (sleep pollInterval w1)))
      else (Inl GenerationTimedOut, w))"
  by pat_completeness auto
termination
  apply (relation "measure (\<lambda>(E, operationId, startTime, maxWaitMs, w).
    startTime + maxWaitMs - clock w)")
   apply simp
  apply (auto simp: apiRequest_def request_def Let_def sleep_def pollInterval_def
      split: outcome.splits)
  done

declare pollOperation_loop.simps [simp del]

definition pollOperation :: "env \<Rightarrow> jsval \<Rightarrow> nat \<Rightarrow> world \<Rightarrow> (error + jsval) \<times> world" where
  "pollOperation E operationId maxWaitMs w =
     pollOperation_loop E operationId (clock w) maxWaitMs w"


subsection \<open>The generateFrom functions\<close>

definition startsWith_http :: "string \<Rightarrow> bool" where
  "startsWith_http s = (take 4 s = ''http'')"

text \<open>\<^verbatim>\<open>upload.data.id || upload.data.media_id\<close>\<close>

definition media_id_of :: "jsval \<Rightarrow> error + jsval" where
  "media_id_of d =
     (case get_prop d ''id'' of
        Inl e \<Rightarrow> Inl e
      | Inr a \<Rightarrow> if truthy a then Inr a else get_prop d ''media_id'')"

text \<open>
  The block that \<^verbatim>\<open>generateFromImage\<close>, \<^verbatim>\<open>generateFromMultiImage\<close> and
  \<^verbatim>\<open>generateFromVideo\<close> each spell out (lines 154-163, 188-197, 223-232): a URL is
  passed by reference, a local file is uploaded first; an upload answered with a status
  other than 200 and 201 throws. The result is the list of properties of the reference.
\<close>

definition media_ref :: "env \<Rightarrow> string \<Rightarrow> world \<Rightarrow> (error + (string \<times> jsval) list) \<times> world" where
  "media_ref E p w =
     (if startsWith_http p then (Inr [(''url'', JStr p)], w)
      else
        (case uploadFileRequest E p w of
           (Inl e, w1) \<Rightarrow> (Inl e, w1)
         | (Inr (st, d), w1) \<Rightarrow>
             if st \<noteq> 200 \<and> st \<noteq> 201 then (Inl (UploadFailed p d), w1)
             else (case media_id_of d of
                     Inl e \<Rightarrow> (Inl e, w1)
                   | Inr v \<Rightarrow> (Inr [(''media_id'', v)], w1))))"

text \<open>\<^verbatim>\<open>name || fallback\<close> on strings.\<close>

definition display_name :: "string \<Rightarrow> string \<Rightarrow> jsval" where
  "display_name nm fallback = JStr (if nm \<noteq> [] then nm else fallback)"

definition generate_body :: "jsval \<Rightarrow> jsval \<Rightarrow> string \<Rightarrow> jsval" where
  "generate_body world_prompt dn model =
     JObj [(''world_prompt'', world_prompt), (''display_name'', dn), (''model'', JStr model)]"

text \<open>The submission that ends each generateFrom function, with its status check.\<close>

definition post_generate :: "env \<Rightarrow> jsval \<Rightarrow> world \<Rightarrow> (error + jsval) \<times> world" where
  "post_generate E b w =
     (case apiRequest E (WorldsGenerate b) w of
        (Inl e, w1) \<Rightarrow> (Inl e, w1)
      | (Inr (st, d), w1) \<Rightarrow>
          if st \<noteq> 200 \<and> st \<noteq> 201 then (Inl (SubmissionFailed st d), w1) else (Inr d, w1))"

definition generateFromText ::
  "env \<Rightarrow> string \<Rightarrow> string \<Rightarrow> string \<Rightarrow> world \<Rightarrow> (error + jsval) \<times> world" where
  "generateFromText E txt nm model w =
     post_generate E
       (generate_body (JObj [(''text_prompt'', JStr txt)]) (display_name nm (take 50 txt)) model) w"

definition generateFromImage ::
  "env \<Rightarrow> string \<Rightarrow> string \<Rightarrow> string \<Rightarrow> world \<Rightarrow> (error + jsval) \<times> world" where
  "generateFromImage E imagePathOrUrl nm model w =
     (case media_ref E imagePathOrUrl w of
        (Inl e, w1) \<Rightarrow> (Inl e, w1)
      | (Inr imageRef, w1) \<Rightarrow>
          post_generate E
            (generate_body (JObj [(''image_prompt'', JObj imageRef)])
               (display_name nm ''Property Tour'') model) w1)"

text \<open>
  The loop of \<^verbatim>\<open>generateFromMultiImage\<close> (lines 184-203): \<open>i\<close> is the index of the head of
  the paths still to be processed, \<open>imgs\<close> the array built so far.
\<close>

fun multi_image_loop ::
  "env \<Rightarrow> double \<Rightarrow> string list \<Rightarrow> nat \<Rightarrow> jsval list \<Rightarrow> world \<Rightarrow> (error + jsval list) \<times> world" where
  "multi_image_loop E step [] i imgs w = (Inr imgs, w)"
| "multi_image_loop E step (imgPath # rest) i imgs w =
     (case media_ref E imgPath w of
        (Inl e, w1) \<Rightarrow> (Inl e, w1)
      | (Inr imageRef, w1) \<Rightarrow>
          multi_image_loop E step rest (Suc i)
            (imgs @ [JObj (imageRef @ [(''azimuth'', JNum (Math_round (js_mul i step)))])]) w1)"

text \<open>
  With no paths at all the step \<^verbatim>\<open>360 / 0\<close> is infinite in JavaScript; the loop body,
  the only reader of the step, does not run then.
\<close>

definition generateFromMultiImage ::
  "env \<Rightarrow> string list \<Rightarrow> string \<Rightarrow> string \<Rightarrow> world \<Rightarrow> (error + jsval) \<times> world" where
  "generateFromMultiImage E imagePaths nm model w =
     (case multi_image_loop E (angleStep (length imagePaths)) imagePaths 0 [] w of
        (Inl e, w1) \<Rightarrow> (Inl e, w1)
      | (Inr imgs, w1) \<Rightarrow>
          post_generate E
            (generate_body (JObj [(''multi_image_prompt'', JObj [(''images'', JArr imgs)])])
               (display_name nm ''Property Tour'') model) w1)"

definition generateFromVideo ::
  "env \<Rightarrow> string \<Rightarrow> string \<Rightarrow> string \<Rightarrow> world \<Rightarrow> (error + jsval) \<times> world" where
  "generateFromVideo E videoPath nm model w =
     (case media_ref E videoPath w of
        (Inl e, w1) \<Rightarrow> (Inl e, w1)
      | (Inr videoRef, w1) \<Rightarrow>
          post_generate E
            (generate_body (JObj [(''video_prompt'', JObj videoRef)])
               (display_name nm ''Property Tour'') model) w1)"

subsection \<open>main\<close>

text \<open>
  \<^verbatim>\<open>main\<close> after its argument parsing (lines 303-356). A saved tour is the record
  written to the result file; the web pages below hold its first three or four fields.
\<close>

datatype cli_input =
    TextInput string
  | ImageInput string
  | MultiInput "string list"
  | VideoInput string

record tour_result =
  tour_name :: string
  worldId :: jsval
  viewUrl :: jsval

record dated_tour = tour_result +
  createdAt :: nat

record saved_tour = dated_tour +
  tour_mode :: string
  tour_operationId :: jsval
  tour_response :: jsval

datatype cli_outcome = Exit1 error | Saved saved_tour | Printed jsval

text \<open>The default viewer URL \<^verbatim>\<open>`https://platform.worldlabs.ai/worlds/${worldId}`\<close>.\<close>

definition default_view_url :: "jsval \<Rightarrow> string" where
  "default_view_url wid = ''https://platform.worldlabs.ai/worlds/'' @ ToString wid"

text \<open>\<^verbatim>\<open>response.world_id || response.id\<close> on a response that is not null or undefined.\<close>

definition world_id_of :: "jsval \<Rightarrow> jsval" where
  "world_id_of resp = js_or (get_opt resp ''world_id'') (get_opt resp ''id'')"

text \<open>Lines 330-351: what \<^verbatim>\<open>main\<close> does with the completed operation.\<close>

definition resolve_completed :: "string \<Rightarrow> bool \<Rightarrow> jsval \<Rightarrow> jsval \<Rightarrow> nat \<Rightarrow> cli_outcome" where
  "resolve_completed nm draft oid completed now =
     (case get_prop completed ''response'' of
        Inl e \<Rightarrow> Exit1 e
      | Inr resp \<Rightarrow>
          if truthy resp then
            Saved \<lparr>tour_name = nm, worldId = world_id_of resp,
              viewUrl = JStr (default_view_url (world_id_of resp)), createdAt = now,
              tour_mode = (if draft then ''draft'' else ''standard''),
              tour_operationId = oid, tour_response = resp\<rparr>
          else Printed completed)"

definition cli_model :: "bool \<Rightarrow> string" where
  "cli_model draft = (if draft then ''Marble 0.1-mini'' else ''Marble 0.1-plus'')"

definition generate_for :: "env \<Rightarrow> cli_input \<Rightarrow> string \<Rightarrow> string \<Rightarrow> world \<Rightarrow> (error + jsval) \<times> world" where
  "generate_for E inp nm model w =
     (case inp of
        TextInput txt \<Rightarrow> generateFromText E txt nm model w
      | ImageInput p \<Rightarrow> generateFromImage E p nm model w
      | MultiInput ps \<Rightarrow> generateFromMultiImage E ps nm model w
      | VideoInput p \<Rightarrow> generateFromVideo E p nm model w)"

definition main :: "env \<Rightarrow> cli_input \<Rightarrow> string \<Rightarrow> bool \<Rightarrow> world \<Rightarrow> cli_outcome \<times> world" where
  "main E inp nm draft w =
     (case generate_for E inp nm (cli_model draft) w of
        (Inl e, w1) \<Rightarrow> (Exit1 e, w1)
      | (Inr result, w1) \<Rightarrow>
          (case get_prop result ''operation_id'' of
             Inl e \<Rightarrow> (Exit1 e, w1)
           | Inr oid \<Rightarrow>
               (case pollOperation E oid 300000 w1 of
                  (Inl e, w2) \<Rightarrow> (Exit1 e, w2)
                | (Inr completed, w2) \<Rightarrow>
                    (resolve_completed nm draft oid completed (clock w2), w2))))"


section \<open>The web submission handlers of app/pages/api/generate.js\<close>

text \<open>
  The file holds three generations of the handler. A handler answers with a status
  code and a JSON body; \<open>Caught e\<close> stands for the answer of its \<^verbatim>\<open>catch\<close> block, status
  500 with the message of the exception.
\<close>

datatype handler_result = Responded nat jsval | Caught error

fun split_on :: "char \<Rightarrow> string \<Rightarrow> string list" where
  "split_on c [] = [[]]"
| "split_on c (x # xs) =
     (if x = c then [] # split_on c xs
      else (case split_on c xs of
              [] \<Rightarrow> [[x]]
            | y # ys \<Rightarrow> (x # y) # ys))"

text \<open>\<^verbatim>\<open>s.split(',')[1]\<close>: the text after the first comma, or \<^verbatim>\<open>undefined\<close>.\<close>

definition split_comma_1 :: "string \<Rightarrow> jsval" where
  "split_comma_1 s =
     (case split_on (CHR '','') s of
        a # b # rest \<Rightarrow> JStr b
      | _ \<Rightarrow> JUndefined)"

definition web_model :: "string \<Rightarrow> string" where
  "web_model m = (if m = ''draft'' then ''Marble 0.1-mini'' else ''Marble 0.1-plus'')"

definition no_images :: "image list option \<Rightarrow> bool" where
  "no_images imgs = (case imgs of None \<Rightarrow> True | Some xs \<Rightarrow> length xs = 0)"

definition started :: "jsval \<Rightarrow> jsval" where
  "started oid = JObj [(''operationId'', oid), (''message'', JStr ''Generation started'')]"

definition error_body :: "string \<Rightarrow> jsval" where
  "error_body msg = JObj [(''error'', JStr msg)]"

subsection \<open>First generation (lines 1-134): upload each image, then submit\<close>

text \<open>
  The upload loop (lines 91-105). \<^verbatim>\<open>Buffer.from(undefined, 'base64')\<close> throws when the
  data URL has no comma. \<open>n\<close> is \<^verbatim>\<open>images.length\<close>.
\<close>

fun upload_loop ::
  "env \<Rightarrow> nat \<Rightarrow> image list \<Rightarrow> nat \<Rightarrow> jsval list \<Rightarrow> world \<Rightarrow> (handler_result + jsval list) \<times> world" where
  "upload_loop E n [] i uploadedImages w = (Inr uploadedImages, w)"
| "upload_loop E n (img # rest) i uploadedImages w =
     (if split_comma_1 (img_data img) = JUndefined then (Inl (Caught TypeError), w)
      else
        (case apiRequest E (MediaUpload (img_name img) (img_type img)) w of
           (Inl e, w1) \<Rightarrow> (Inl (Caught e), w1)
         | (Inr (st, d), w1) \<Rightarrow>
             if st \<noteq> 200 \<and> st \<noteq> 201 then
               (Inl (Responded 500
                  (JObj [(''error'', JStr (''Failed to upload '' @ img_name img)),
                         (''details'', d)])), w1)
             else
               (case media_id_of d of
                  Inl e \<Rightarrow> (Inl (Caught e), w1)
                | Inr v \<Rightarrow>
                    upload_loop E n rest (Suc i)
                      (uploadedImages @
                         [JObj [(''media_id'', v),
                                (''azimuth'', JNum (Math_round (js_mul i (angleStep n))))]])
                      w1)))"

text \<open>Lines 108-113.\<close>

definition media_world_prompt :: "jsval list \<Rightarrow> jsval" where
  "media_world_prompt uploadedImages =
     (if length uploadedImages = 1 then
        JObj [(''image_prompt'', JObj [(''media_id'', get_opt (uploadedImages ! 0) ''media_id'')])]
      else JObj [(''multi_image_prompt'', JObj [(''images'', JArr uploadedImages)])])"

definition handler_media ::
  "env \<Rightarrow> string \<Rightarrow> string \<Rightarrow> request_body \<Rightarrow> world \<Rightarrow> handler_result \<times> world" where
  "handler_media E apiKey method b w =
     (if method \<noteq> ''POST'' then (Responded 405 (error_body ''Method not allowed''), w)
      else if apiKey = [] then
        (Responded 500 (error_body ''World Labs API key not configured''), w)
      else if no_images (images b) then (Responded 400 (error_body ''No images provided''), w)
      else
        (case upload_loop E (length (the (images b))) (the (images b)) 0 [] w of
           (Inl r, w1) \<Rightarrow> (r, w1)
         | (Inr uploadedImages, w1) \<Rightarrow>
             (case apiRequest E
                     (WorldsGenerate
                        (generate_body (media_world_prompt uploadedImages)
                           (display_name (req_name b) ''Property Tour'') (web_model (req_mode b))))
                     w1 of
                (Inl e, w2) \<Rightarrow> (Caught e, w2)
              | (Inr (st, d), w2) \<Rightarrow>
                  if st \<noteq> 200 \<and> st \<noteq> 201 then
                    (Responded 500
                       (JObj [(''error'', JStr ''Generation failed''), (''details'', d)]), w2)
                  else
                    (case get_prop d ''operation_id'' of
                       Inl e \<Rightarrow> (Caught e, w2)
                     | Inr oid \<Rightarrow> (Responded 200 (started oid), w2)))))"

subsection \<open>Second generation (lines 135-220): inline base64, azimuth by index\<close>

text \<open>
  \<^verbatim>\<open>apiFetch\<close> (lines 138-152): the body must be JSON and the status must be 2xx.
\<close>

definition apiFetch :: "env \<Rightarrow> call \<Rightarrow> world \<Rightarrow> (error + jsval) \<times> world" where
  "apiFetch E c w =
     (case request E c w of
        (Rejected, w1) \<Rightarrow> (Inl NetworkError, w1)
      | (Resolved st b, w1) \<Rightarrow>
          (case b of
             Raw t \<Rightarrow> (Inl SyntaxError, w1)
           | Json v \<Rightarrow>
               if 200 \<le> st \<and> st \<le> 299 then (Inr v, w1)
               else (Inl (SubmissionFailed st v), w1)))"

definition base64_content :: "string \<Rightarrow> jsval" where
  "base64_content d = JObj [(''source'', JStr ''data_base64''), (''data_base64'', split_comma_1 d)]"

definition image_prompt :: "image \<Rightarrow> jsval" where
  "image_prompt img = JObj [(''type'', JStr ''image''), (''image_prompt'', base64_content (img_data img))]"

definition multi_prompt :: "jsval list \<Rightarrow> jsval" where
  "multi_prompt entries = JObj [(''type'', JStr ''multi-image''), (''multi_image_prompt'', JArr entries)]"


text \<open>Lines 202-214 and 327-339: the submission shared by the two later generations.\<close>

definition submit_prompt ::
  "env \<Rightarrow> jsval \<Rightarrow> request_body \<Rightarrow> world \<Rightarrow> handler_result \<times> world" where
  "submit_prompt E worldPrompt b w =
     (case apiFetch E
             (WorldsGenerate
                (generate_body worldPrompt (display_name (req_name b) ''Property Tour'')
                   (web_model (req_mode b)))) w of
        (Inl e, w1) \<Rightarrow> (Caught e, w1)
      | (Inr result, w1) \<Rightarrow>
          (case get_prop result ''operation_id'' of
             Inl e \<Rightarrow> (Caught e, w1)
           | Inr oid \<Rightarrow> (Responded 200 (started oid), w1)))"


subsection \<open>Third generation (lines 221-345): input types and layout modes\<close>

text \<open>
  The table \<^verbatim>\<open>directions\<close> (line 313) and its lookup; a string that is not a key of
  the table yields \<^verbatim>\<open>undefined\<close> (strings naming a member of \<^verbatim>\<open>Object.prototype\<close> are
  left out of the model).
\<close>

definition directions :: "(string \<times> int) list" where
  "directions = [(''front'', 0), (''right'', 90), (''back'', 180), (''left'', 270)]"

text \<open>\<^verbatim>\<open>img.direction ? directions[img.direction] : 0\<close>\<close>

definition direction_azimuth :: "string option \<Rightarrow> jsval" where
  "direction_azimuth dir =
     (case dir of
        None \<Rightarrow> JNum 0
      | Some d \<Rightarrow>
          if d = [] then JNum 0
          else (case map_of directions d of Some a \<Rightarrow> JNum a | None \<Rightarrow> JUndefined))"

text \<open>\<^verbatim>\<open>x.data.split(',')[1] || x.data\<close>\<close>

definition media_base64 :: "media \<Rightarrow> jsval" where
  "media_base64 m = js_or (split_comma_1 (media_data m)) (JStr (media_data m))"

definition no_media :: "media option \<Rightarrow> bool" where
  "no_media m = (case m of None \<Rightarrow> True | Some x \<Rightarrow> media_data x = [])"

text \<open>Lines 257-325: the prompt, or the 400 answer that ends the request early.\<close>

definition layout_world_prompt :: "request_body \<Rightarrow> handler_result + jsval" where
  "layout_world_prompt b =
     (if inputType b = ''video'' then
        (if no_media (video b) then Inl (Responded 400 (error_body ''No video data provided''))
         else Inr (JObj [(''type'', JStr ''video''),
                (''video_prompt'', JObj [(''source'', JStr ''data_base64''),
                   (''data_base64'', media_base64 (the (video b)))])]))
      else if inputType b = ''panorama'' then
        (if no_media (panorama b) then
           Inl (Responded 400 (error_body ''No panorama data provided''))
         else Inr (JObj [(''type'', JStr ''panorama''),
                (''panorama_prompt'', JObj [(''source'', JStr ''data_base64''),
                   (''data_base64'', media_base64 (the (panorama b)))])]))
      else if no_images (images b) then Inl (Responded 400 (error_body ''No images provided''))
      else if length (the (images b)) = 1 then Inr (image_prompt (the (images b) ! 0))
      else if layoutMode b = ''auto'' then
        Inr (multi_prompt
          (map (\<lambda>img. JObj [(''content'', base64_content (img_data img))]) (the (images b))))
      else
        Inr (multi_prompt
          (map (\<lambda>img. JObj [(''azimuth'', direction_azimuth (direction img)),
                             (''content'', base64_content (img_data img))])
             (the (images b)))))"

definition handler_layout ::
  "env \<Rightarrow> string \<Rightarrow> string \<Rightarrow> request_body \<Rightarrow> world \<Rightarrow> handler_result \<times> world" where
  "handler_layout E apiKey method b w =
     (if method \<noteq> ''POST'' then (Responded 405 (error_body ''Method not allowed''), w)
      else if apiKey = [] then
        (Responded 500 (error_body ''World Labs API key not configured''), w)
      else
        (case layout_world_prompt b of
           Inl r \<Rightarrow> (r, w)
         | Inr worldPrompt \<Rightarrow> submit_prompt E worldPrompt b w))"


section \<open>The web page app/pages/index.js\<close>





text \<open>
  Lines 168-175: the optional lookup of the world's own viewer URL. Every failure inside
  the \<^verbatim>\<open>try\<close> block leaves the default URL in place.
\<close>

definition lookup_view_url :: "env \<Rightarrow> jsval \<Rightarrow> world \<Rightarrow> jsval \<times> world" where
  "lookup_view_url E wid w =
     (case request E (ApiWorld (ToString wid)) w of
        (Rejected, w1) \<Rightarrow> (JStr (default_view_url wid), w1)
      | (Resolved st b, w1) \<Rightarrow>
          (if 200 \<le> st \<and> st \<le> 299 then
             (case b of
                Raw t \<Rightarrow> JStr (default_view_url wid)
              | Json worldData \<Rightarrow>
                  (case get_prop worldData ''world_marble_url'' of
                     Inl e \<Rightarrow> JStr (default_view_url wid)
                   | Inr u \<Rightarrow> js_or u (JStr (default_view_url wid))))
           else JStr (default_view_url wid), w1))"

text \<open>
  Lines 164-179: the branch taken when the status says done. Of the vendor's error the
  page keeps the \<^verbatim>\<open>message\<close> only, or a fixed text when there is none (a truthy value
  can be read without a TypeError).
\<close>

definition failure_message :: "jsval \<Rightarrow> jsval" where
  "failure_message er = js_or (get_opt er ''message'') (JStr ''Generation failed'')"

definition on_done :: "env \<Rightarrow> string \<Rightarrow> jsval \<Rightarrow> world \<Rightarrow> (error + dated_tour) \<times> world" where
  "on_done E nm statusData w =
     (case get_prop statusData ''error'' of
        Inl e \<Rightarrow> (Inl e, w)
      | Inr er \<Rightarrow>
          if truthy er then (Inl (GenerationFailed (failure_message er)), w)
          else
            (let wid = world_id_of (get_opt statusData ''response'');
                 (url, w1) = lookup_view_url E wid w
             in (Inr \<lparr>tour_name = (if nm \<noteq> [] then nm else ''Property Tour''),
                      worldId = wid, viewUrl = url, createdAt = clock w1\<rparr>, w1)))"


text \<open>
  The polling loop of both pages (lines 159-183 and 884-906), which differ in the
  branch \<open>done\<close> only. The loop has no timeout: it need not end, so it returns an option.
  The progress shown while waiting is not modelled.
\<close>

partial_function (option) status_loop ::
  "env \<Rightarrow> (jsval \<Rightarrow> world \<Rightarrow> (error + 'r) \<times> world) \<Rightarrow> jsval \<Rightarrow> world \<Rightarrow>
     ((error + 'r) \<times> world) option" where
  "status_loop E done oid w =
     (case request E (ApiStatus (ToString oid)) (sleep 3000 w) of
        (Rejected, w1) \<Rightarrow> Some (Inl NetworkError, w1)
      | (Resolved st b, w1) \<Rightarrow>
          (case b of
             Raw t \<Rightarrow> Some (Inl SyntaxError, w1)
           | Json statusData \<Rightarrow>
               (case get_prop statusData ''done'' of
                  Inl e \<Rightarrow> Some (Inl e, w1)
                | Inr dn \<Rightarrow>
                    if truthy dn then Some (done statusData w1)
                    else status_loop E done oid w1)))"






section \<open>Observing a run\<close>

text \<open>The calls issued between two worlds of one run, and the bodies submitted among them.\<close>

definition new_entries :: "world \<Rightarrow> world \<Rightarrow> entry list" where
  "new_entries w w' = drop (length (trace w)) (trace w')"

definition submitted :: "world \<Rightarrow> world \<Rightarrow> jsval list" where
  "submitted w w' = generate_bodies (new_entries w w')"

fun is_upload :: "entry \<Rightarrow> bool" where
  "is_upload (t, MediaUpload p m, r) = True"
| "is_upload e = False"

text \<open>An upload that the code accepts: answered with status 200 or 201.\<close>

fun accepted :: "entry \<Rightarrow> bool" where
  "accepted (t, MediaUpload p m, Resolved st bd) = (st = 200 \<or> st = 201)"
| "accepted e = False"

text \<open>
  A scripted vendor for concrete runs: the \<open>k\<close>-th call of a run gets the \<open>k\<close>-th
  answer of the script, every later call the fallback; calls take no time and every
  file is readable.
\<close>

definition scripted :: "outcome list \<Rightarrow> outcome \<Rightarrow> env" where
  "scripted script fallback =
     \<lparr>vendor = (\<lambda>h c. if length h < length script then script ! length h else fallback),
      latency = (\<lambda>h c. 0),
      readable = (\<lambda>p. True)\<rparr>"

definition world0 :: world where
  "world0 = \<lparr>clock = 0, trace = []\<rparr>"

definition photo :: "string \<Rightarrow> string option \<Rightarrow> image" where
  "photo nm dir = \<lparr>img_name = nm, img_type = ''image/jpeg'',
     img_data = ''data:image/jpeg;base64,AAAA'', direction = dir\<rparr>"

definition photos_body :: "image list \<Rightarrow> string \<Rightarrow> request_body" where
  "photos_body imgs layout = \<lparr>images = Some imgs, req_name = ''Loft'', req_mode = ''draft'',
     inputType = ''images'', layoutMode = layout, video = None, panorama = None\<rparr>"

text \<open>
  The viewer URL that the lookup of lines 168-175 supplies, if any: the lookup must
  succeed with a 2xx status and a JSON body whose \<^verbatim>\<open>world_marble_url\<close> is truthy.
\<close>

fun canonical_url :: "outcome \<Rightarrow> jsval option" where
  "canonical_url Rejected = None"
| "canonical_url (Resolved st (Raw t)) = None"
| "canonical_url (Resolved st (Json d)) =
     (if 200 \<le> st \<and> st \<le> 299 then
        (case get_prop d ''world_marble_url'' of
           Inl e \<Rightarrow> None
         | Inr u \<Rightarrow> if truthy u then Some u else None)
      else None)"

text \<open>
  What one status answer means to \<^verbatim>\<open>pollOperation\<close>: the result that ends the polling, or
  \<open>None\<close> when the job is not done and polling goes on.
\<close>

definition status_verdict :: "outcome \<Rightarrow> (error + jsval) option" where
  "status_verdict out =
     (case out of
        Rejected \<Rightarrow> Some (Inl NetworkError)
      | Resolved st bd \<Rightarrow>
          (case get_prop (parsed_or_text bd) ''done'' of
             Inl e \<Rightarrow> Some (Inl e)
           | Inr dn \<Rightarrow>
               if truthy dn then
                 (case get_prop (parsed_or_text bd) ''error'' of
                    Inl e \<Rightarrow> Some (Inl e)
                  | Inr er \<Rightarrow>
                      if truthy er then Some (Inl (GenerationFailed er))
                      else Some (Inr (parsed_or_text bd)))
               else None))"

fun is_status :: "entry \<Rightarrow> bool" where
  "is_status (t, GetOperation s, r) = True"
| "is_status e = False"

text \<open>The error that the script raises for an upload answered with another status.\<close>

fun upload_failure :: "entry \<Rightarrow> error option" where
  "upload_failure (t, MediaUpload p m, Resolved st bd) =
     (if st \<noteq> 200 \<and> st \<noteq> 201 then Some (UploadFailed p (parsed_or_text bd)) else None)"
| "upload_failure e = None"

text \<open>The calls of an upload phase: uploads only, all but the last one accepted.\<close>

definition upload_phase :: "entry list \<Rightarrow> bool" where
  "upload_phase ups = (list_all is_upload ups \<and> list_all accepted (butlast ups))"

text \<open>
  The calls of one submission by the script: an upload phase \<open>ups\<close>, then at most one
  \<open>WorldsGenerate\<close> call \<open>gen\<close>, made only after every upload was accepted; \<open>r\<close> is what the
  generateFrom function returns.
\<close>

definition generate_phase :: "error + jsval \<Rightarrow> entry list \<Rightarrow> entry list \<Rightarrow> bool" where
  "generate_phase r ups gen =
     (upload_phase ups \<and>
      (gen = [] \<or> list_all accepted ups \<and> (\<exists>t b out. gen = [(t, WorldsGenerate b, out)])) \<and>
      (\<forall>x. r = Inr x \<longrightarrow> gen \<noteq> []) \<and>
      (\<forall>e e'. r = Inl e \<and> gen = [] \<and> ups \<noteq> [] \<and> upload_failure (last ups) = Some e' \<longrightarrow>
         e = e'))"

text \<open>
  The calls of one run of \<^verbatim>\<open>main\<close>: a submission followed by the status requests \<open>polls\<close>,
  of which only the last can end the polling; \<open>out\<close> is how the run ends.
\<close>

definition main_shape :: "cli_outcome \<Rightarrow> entry list \<Rightarrow> entry list \<Rightarrow> entry list \<Rightarrow> bool" where
  "main_shape out ups gen polls =
     (upload_phase ups \<and>
      (gen = [] \<or> list_all accepted ups \<and> (\<exists>t b r. gen = [(t, WorldsGenerate b, r)])) \<and>
      (gen = [] \<longrightarrow> polls = []) \<and>
      list_all is_status polls \<and>
      list_all (\<lambda>e. status_verdict (snd (snd e)) = None) (butlast polls) \<and>
      (\<forall>e'. gen = [] \<and> ups \<noteq> [] \<and> upload_failure (last ups) = Some e' \<longrightarrow> out = Exit1 e') \<and>
      (\<forall>e. polls \<noteq> [] \<and> status_verdict (snd (snd (last polls))) = Some (Inl e) \<longrightarrow>
         out = Exit1 e) \<and>
      (\<forall>r. out = Saved r \<longrightarrow>
         polls \<noteq> [] \<and>
         (\<exists>d. status_verdict (snd (snd (last polls))) = Some (Inr d) \<and>
            tour_response r = get_opt d ''response'' \<and> truthy (tour_response r) \<and>
            worldId r = world_id_of (tour_response r) \<and>
            viewUrl r = JStr (default_view_url (worldId r)))))"






section \<open>Rounding lemmas\<close>





lemma dval_zero: "dval (0, e) = 0"
  by (simp add: dval_def)

















section \<open>Traces of the web handlers\<close>


lemma request_trace:
  "request E c w = (r, w') \<Longrightarrow>
     trace w' = trace w @ [(clock w, c, r)] \<and> r = vendor E (calls w) c \<and> clock w \<le> clock w'"
  by (auto simp: request_def Let_def)

lemma new_entries_request:
  "request E c w = (r, w') \<Longrightarrow> new_entries w w' = [(clock w, c, r)]"
  by (auto simp: request_def Let_def new_entries_def)

lemma new_entries_same [simp]: "new_entries w w = []"
  by (simp add: new_entries_def)

lemma apiFetch_entries:
  "apiFetch E c w = (r, w') \<Longrightarrow> \<exists>out. new_entries w w' = [(clock w, c, out)]"
  by (auto simp: apiFetch_def new_entries_def request_def Let_def split: outcome.splits body.splits if_splits)

lemma submit_prompt_submitted:
  "submitted w (snd (submit_prompt E wp b w)) =
     [generate_body wp (display_name (req_name b) ''Property Tour'') (web_model (req_mode b))]"
proof -
  obtain r w1 where f: "apiFetch E (WorldsGenerate (generate_body wp
      (display_name (req_name b) ''Property Tour'') (web_model (req_mode b)))) w = (r, w1)"
    by (cases "apiFetch E (WorldsGenerate (generate_body wp
      (display_name (req_name b) ''Property Tour'') (web_model (req_mode b)))) w")
  from apiFetch_entries [OF f] obtain out where
    n: "new_entries w w1 = [(clock w, WorldsGenerate (generate_body wp
      (display_name (req_name b) ''Property Tour'') (web_model (req_mode b))), out)]" by blast
  have "snd (submit_prompt E wp b w) = w1"
    using f by (auto simp: submit_prompt_def split: sum.splits)
  then show ?thesis using n by (simp add: submitted_def)
qed

lemma handler_layout_submitted:
  assumes "method = ''POST''" "apiKey \<noteq> []" "layout_world_prompt b = Inr wp"
  shows "submitted w (snd (handler_layout E apiKey method b w)) =
     [generate_body wp (display_name (req_name b) ''Property Tour'') (web_model (req_mode b))]"
  using assms by (simp add: handler_layout_def submit_prompt_submitted)

lemma handler_layout_not_submitted:
  assumes "method \<noteq> ''POST'' \<or> apiKey = [] \<or> layout_world_prompt b = Inl r"
  shows "submitted w (snd (handler_layout E apiKey method b w)) = []"
  using assms by (auto simp: handler_layout_def submitted_def)

lemma apiRequest_entry:
  assumes "apiRequest E c w = (r, w')"
  shows "trace w' = trace w @ [(clock w, c, vendor E (calls w) c)]"
    and "clock w \<le> clock w'"
    and "calls w' = calls w @ [c]"
    and "\<And>e. r = Inl e \<Longrightarrow> vendor E (calls w) c = Rejected"
    and "\<And>st d. r = Inr (st, d) \<Longrightarrow>
           \<exists>bd. vendor E (calls w) c = Resolved st bd \<and> d = parsed_or_text bd"
  using assms
  by (auto simp: apiRequest_def request_def Let_def calls_def split: outcome.splits)

lemma new_entries_append:
  "trace w' = trace w @ xs \<Longrightarrow> new_entries w w' = xs"
  by (simp add: new_entries_def)

lemma upload_loop_trace:
  "upload_loop E n imgs i acc w = (r, w') \<Longrightarrow>
     trace w' = trace w @ new_entries w w' \<and>
     list_all is_upload (new_entries w w') \<and>
     list_all accepted (butlast (new_entries w w')) \<and>
     (\<forall>ups. r = Inr ups \<longrightarrow> list_all accepted (new_entries w w')) \<and>
     (\<forall>res t p m st bd. r = Inl res \<and> new_entries w w' \<noteq> [] \<and>
        last (new_entries w w') = (t, MediaUpload p m, Resolved st bd) \<and>
        st \<noteq> 200 \<and> st \<noteq> 201 \<longrightarrow>
        res = Responded 500 (JObj [(''error'', JStr (''Failed to upload '' @ p)),
                (''details'', parsed_or_text bd)]))"
proof (induction imgs arbitrary: i acc w)
  case Nil
  then have "w' = w" by simp
  then show ?case by simp
next
  case (Cons img rest)
  show ?case
  proof (cases "split_comma_1 (img_data img) = JUndefined")
    case True
    with Cons.prems have "w' = w" by simp
    then show ?thesis by simp
  next
    case False
    obtain a w1 where a: "apiRequest E (MediaUpload (img_name img) (img_type img)) w = (a, w1)"
      by (cases "apiRequest E (MediaUpload (img_name img) (img_type img)) w")
    define out where "out = vendor E (calls w) (MediaUpload (img_name img) (img_type img))"
    define e where "e = (clock w, MediaUpload (img_name img) (img_type img), out)"
    have tr: "trace w1 = trace w @ [e]"
      using apiRequest_entry(1) [OF a] by (simp add: e_def out_def)
    then have ne1: "new_entries w w1 = [e]" by (rule new_entries_append)
    have up: "is_upload e" by (simp add: e_def)
    have step: "upload_loop E n (img # rest) i acc w =
      (case a of
         Inl x \<Rightarrow> (Inl (Caught x), w1)
       | Inr (st, d) \<Rightarrow>
           if st \<noteq> 200 \<and> st \<noteq> 201 then
             (Inl (Responded 500
                (JObj [(''error'', JStr (''Failed to upload '' @ img_name img)),
                       (''details'', d)])), w1)
           else
             (case media_id_of d of
                Inl x \<Rightarrow> (Inl (Caught x), w1)
              | Inr v \<Rightarrow>
                  upload_loop E n rest (Suc i)
                    (acc @
                       [JObj [(''media_id'', v),
                              (''azimuth'', JNum (Math_round (js_mul i (angleStep n))))]])
                    w1))"
      using False a by (simp split: sum.splits)
    show ?thesis
    proof (cases a)
      case (Inl x)
      with step Cons.prems have rw: "r = Inl (Caught x)" "w' = w1" by simp_all
      have "out = Rejected" using apiRequest_entry(4) [OF a Inl] by (simp add: out_def)
      then have "e = (clock w, MediaUpload (img_name img) (img_type img), Rejected)"
        by (simp add: e_def)
      then show ?thesis by (simp add: rw ne1 tr)
    next
      case (Inr sd)
      obtain st d where sd: "sd = (st, d)" by (cases sd)
      from apiRequest_entry(5) [OF a] Inr sd obtain bd where
        bd: "out = Resolved st bd" "d = parsed_or_text bd"
        unfolding out_def by blast
      have e: "e = (clock w, MediaUpload (img_name img) (img_type img), Resolved st bd)"
        by (simp add: e_def bd)
      show ?thesis
      proof (cases "st \<noteq> 200 \<and> st \<noteq> 201")
        case True
        with step Cons.prems Inr sd
        have rw: "r = Inl (Responded 500 (JObj [(''error'', JStr (''Failed to upload '' @ img_name img)),
            (''details'', d)]))" "w' = w1" by simp_all
        show ?thesis by (simp add: rw ne1 tr e bd(2))
      next
        case ok: False
        then have acc: "accepted e" by (auto simp: e)
        show ?thesis
        proof (cases "media_id_of d")
          case (Inl x)
          with step Cons.prems \<open>a = Inr sd\<close> sd ok have rw: "r = Inl (Caught x)" "w' = w1"
            by simp_all
          show ?thesis using ok by (simp add: rw ne1 tr e)
        next
          case (Inr v)
          let ?acc = "acc @ [JObj [(''media_id'', v),
            (''azimuth'', JNum (Math_round (js_mul i (angleStep n))))]]"
          let ?new = "new_entries w1 w'"
          from step Cons.prems \<open>a = Inr sd\<close> sd ok Inr
          have rec: "upload_loop E n rest (Suc i) ?acc w1 = (r, w')" by simp
          note IH = Cons.IH [OF rec]
          note n1 = IH [THEN conjunct1]
          note n2 = IH [THEN conjunct2, THEN conjunct1]
          note n3 = IH [THEN conjunct2, THEN conjunct2, THEN conjunct1]
          note n4 = IH [THEN conjunct2, THEN conjunct2, THEN conjunct2, THEN conjunct1]
          note n5 = IH [THEN conjunct2, THEN conjunct2, THEN conjunct2, THEN conjunct2]
          have "trace w' = trace w @ (e # ?new)" using n1 tr by simp
          then have ne: "new_entries w w' = e # ?new" by (rule new_entries_append)
          have 1: "trace w' = trace w @ (e # ?new)" using n1 tr by simp
          have 2: "list_all is_upload (e # ?new)" using n2 up by simp
          have 3: "list_all accepted (butlast (e # ?new))" using n3 acc by simp
          have 4: "\<forall>ups. r = Inr ups \<longrightarrow> list_all accepted (e # ?new)" using n4 acc by simp
          have 5: "\<forall>res t p m st bd. r = Inl res \<and> e # ?new \<noteq> [] \<and>
                last (e # ?new) = (t, MediaUpload p m, Resolved st bd) \<and> st \<noteq> 200 \<and> st \<noteq> 201 \<longrightarrow>
                res = Responded 500 (JObj [(''error'', JStr (''Failed to upload '' @ p)),
                  (''details'', parsed_or_text bd)])"
          proof (cases "?new = []")
            case True
            then show ?thesis using ok by (auto simp: e)
          next
            case False
            then have "last (e # ?new) = last ?new" by simp
            then show ?thesis using n5 False by simp
          qed
          show ?thesis unfolding ne by (intro conjI) (rule 1 2 3 4 5)+
        qed
      qed
    qed
  qed
qed




lemma generate_bodies_uploads:
  "list_all is_upload xs \<Longrightarrow> generate_bodies xs = []"
proof (induction xs)
  case Nil
  then show ?case by simp
next
  case (Cons e xs)
  obtain t c out where e: "e = (t, c, out)" by (cases e)
  from Cons.prems have "is_upload e" by simp
  then obtain p m where "c = MediaUpload p m" unfolding e by (cases c) simp_all
  with Cons e show ?case by simp
qed

lemma new_entries_trans:
  "trace w1 = trace w @ xs \<Longrightarrow> trace w2 = trace w1 @ ys \<Longrightarrow> new_entries w w2 = xs @ ys"
  by (simp add: new_entries_def)




lemma world_prompt_of_body [simp]:
  "get_opt (generate_body wp dn model) ''world_prompt'' = wp"
  by (simp add: generate_body_def)




section \<open>File extensions\<close>














section \<open>The result resolver\<close>

lemma lookup_view_url_eq:
  "lookup_view_url E wid w =
     (case canonical_url (vendor E (calls w) (ApiWorld (ToString wid))) of
        None \<Rightarrow> JStr (default_view_url wid)
      | Some u \<Rightarrow> u,
      snd (request E (ApiWorld (ToString wid)) w))"
proof -
  obtain out w1 where r: "request E (ApiWorld (ToString wid)) w = (out, w1)"
    by (cases "request E (ApiWorld (ToString wid)) w")
  have out: "vendor E (calls w) (ApiWorld (ToString wid)) = out"
    using request_trace [OF r] by simp
  have "lookup_view_url E wid w =
     (case canonical_url out of None \<Rightarrow> JStr (default_view_url wid) | Some u \<Rightarrow> u, w1)"
  proof (cases out)
    case Rejected
    with r show ?thesis by (simp add: lookup_view_url_def)
  next
    case (Resolved st bd)
    show ?thesis
    proof (cases bd)
      case (Raw t)
      with r Resolved show ?thesis by (simp add: lookup_view_url_def)
    next
      case (Json d)
      with r Resolved show ?thesis
        by (simp add: lookup_view_url_def js_or_def split: sum.splits)
    qed
  qed
  then show ?thesis by (simp add: out r)
qed

lemma on_done_result:
  assumes "get_prop statusData ''error'' = Inr er" and "\<not> truthy er"
  shows "\<exists>r w'.
     on_done E nm statusData w = (Inr r, w') \<and>
     worldId r = world_id_of (get_opt statusData ''response'') \<and>
     (canonical_url (vendor E (calls w) (ApiWorld (ToString (worldId r)))) = None \<longrightarrow>
        viewUrl r = JStr (default_view_url (worldId r))) \<and>
     (\<forall>u. canonical_url (vendor E (calls w) (ApiWorld (ToString (worldId r)))) = Some u \<longrightarrow>
        viewUrl r = u) \<and>
     new_entries w w' =
       [(clock w, ApiWorld (ToString (worldId r)),
         vendor E (calls w) (ApiWorld (ToString (worldId r))))]"
proof -
  define wid where "wid = world_id_of (get_opt statusData ''response'')"
  define out where "out = vendor E (calls w) (ApiWorld (ToString wid))"
  define w1 where "w1 = snd (request E (ApiWorld (ToString wid)) w)"
  define url where "url = (case canonical_url out of None \<Rightarrow> JStr (default_view_url wid) | Some u \<Rightarrow> u)"
  define r where "r = \<lparr>tour_name = (if nm \<noteq> [] then nm else ''Property Tour''),
                      worldId = wid, viewUrl = url, createdAt = clock w1\<rparr>"
  have lk: "lookup_view_url E wid w = (url, w1)"
    by (simp add: lookup_view_url_eq url_def out_def w1_def)
  have od: "on_done E nm statusData w = (Inr r, w1)"
    using assms lk by (simp add: on_done_def Let_def wid_def [symmetric] r_def)
  have "request E (ApiWorld (ToString wid)) w = (fst (request E (ApiWorld (ToString wid)) w), w1)"
    by (simp add: w1_def)
  then have ne: "new_entries w w1 = [(clock w, ApiWorld (ToString wid), out)]"
    by (simp add: request_def Let_def new_entries_def out_def w1_def)
  have wr: "worldId r = wid" and vr: "viewUrl r = url" by (simp_all add: r_def)
  have a: "canonical_url out = None \<longrightarrow> viewUrl r = JStr (default_view_url wid)"
    by (simp add: vr url_def)
  have b: "\<forall>u. canonical_url out = Some u \<longrightarrow> viewUrl r = u"
    by (simp add: vr url_def)
  show ?thesis
    using od wr a b ne unfolding out_def wid_def
    by (intro exI [of _ r] exI [of _ w1]) simp
qed


lemma status_loop_done:
  assumes "request E (ApiStatus (ToString oid)) (sleep 3000 w) = (Resolved st (Json statusData), w1)"
    and "get_prop statusData ''done'' = Inr dn" and "truthy dn"
  shows "status_loop E done oid w = Some (done statusData w1)"
  using assms by (subst status_loop.simps) simp


lemma get_prop_object: "v = JObj kvs \<Longrightarrow> get_prop v k = Inr (get_opt v k)"
  by simp

section \<open>Runs of the poller\<close>

lemma poll_step:
  "pollOperation_loop E oid t0 mw w =
     (if clock w - t0 < mw then
        (case status_verdict (vendor E (calls w) (GetOperation (ToString oid))) of
           Some r \<Rightarrow> (r, snd (request E (GetOperation (ToString oid)) w))
         | None \<Rightarrow> pollOperation_loop E oid t0 mw
             (sleep pollInterval (snd (request E (GetOperation (ToString oid)) w))))
      else (Inl GenerationTimedOut, w))"
proof (cases "clock w - t0 < mw")
  case False
  then show ?thesis by (subst pollOperation_loop.simps) simp
next
  case True
  define out where "out = vendor E (calls w) (GetOperation (ToString oid))"
  define w1 where "w1 = snd (request E (GetOperation (ToString oid)) w)"
  have rq: "request E (GetOperation (ToString oid)) w = (out, w1)"
    by (simp add: request_def Let_def out_def w1_def)
  show ?thesis
  proof (cases out)
    case Rejected
    with True rq show ?thesis
      by (subst pollOperation_loop.simps)
        (simp add: apiRequest_def status_verdict_def out_def [symmetric] w1_def [symmetric])
  next
    case (Resolved st bd)
    with True rq show ?thesis
      by (subst pollOperation_loop.simps)
        (simp add: apiRequest_def status_verdict_def out_def [symmetric] w1_def [symmetric]
          split: sum.splits)
  qed
qed


lemma get_prop_error: "get_prop v k = Inl e \<Longrightarrow> e = TypeError"
  by (cases v) simp_all

lemma verdict_not_timeout: "status_verdict out \<noteq> Some (Inl GenerationTimedOut)"
  by (auto simp: status_verdict_def split: outcome.splits sum.splits if_splits
      dest: get_prop_error)

lemma request_world:
  "trace (snd (request E c w)) = trace w @ [(clock w, c, vendor E (calls w) c)]"
  "clock w \<le> clock (snd (request E c w))"
  "calls (snd (request E c w)) = calls w @ [c]"
  by (simp_all add: request_def Let_def calls_def)

lemma sleep_world:
  "trace (sleep ms w) = trace w" "clock (sleep ms w) = clock w + ms" "calls (sleep ms w) = calls w"
  by (simp_all add: sleep_def calls_def)

lemma poll_run:
  "pollOperation_loop E oid t0 mw w = (r, w') \<Longrightarrow>
     trace w' = trace w @ new_entries w w' \<and> clock w \<le> clock w' \<and>
     (\<forall>e \<in> set (new_entries w w').
        \<exists>t h. e = (t, GetOperation (ToString oid), vendor E h (GetOperation (ToString oid))) \<and>
          prefix (calls w) h \<and> t - t0 < mw) \<and>
     (\<forall>e \<in> set (butlast (new_entries w w')). status_verdict (snd (snd e)) = None) \<and>
     (r = Inl GenerationTimedOut \<longrightarrow>
        (\<forall>e \<in> set (new_entries w w'). status_verdict (snd (snd e)) = None) \<and>
        mw \<le> clock w' - t0) \<and>
     (r \<noteq> Inl GenerationTimedOut \<longrightarrow>
        new_entries w w' \<noteq> [] \<and>
        status_verdict (snd (snd (last (new_entries w w')))) = Some r)"
proof (induction "t0 + mw - clock w" arbitrary: w rule: less_induct)
  case less
  let ?c = "GetOperation (ToString oid)"
  show ?case
  proof (cases "clock w - t0 < mw")
    case False
    with less.prems have "r = Inl GenerationTimedOut" "w' = w"
      by (simp_all add: poll_step [of E oid t0 mw w])
    with False show ?thesis by simp
  next
    case True
    define out where "out = vendor E (calls w) ?c"
    define w1 where "w1 = snd (request E ?c w)"
    define e0 where "e0 = (clock w, ?c, out)"
    have tr1: "trace w1 = trace w @ [e0]" and ck1: "clock w \<le> clock w1"
      and cl1: "calls w1 = calls w @ [?c]"
      by (simp_all add: w1_def e0_def out_def request_world)
    have e0: "\<exists>t h. e0 = (t, ?c, vendor E h ?c) \<and> prefix (calls w) h \<and> t - t0 < mw"
      using True by (intro exI [of _ "clock w"] exI [of _ "calls w"]) (simp add: e0_def out_def)
    show ?thesis
    proof (cases "status_verdict out")
      case (Some r0)
      with True less.prems have rw: "r = r0" "w' = w1"
        by (simp_all add: poll_step [of E oid t0 mw w] out_def [symmetric] w1_def [symmetric])
      have ne: "new_entries w w' = [e0]" unfolding rw using tr1 by (rule new_entries_append)
      have nt: "r \<noteq> Inl GenerationTimedOut"
        using Some verdict_not_timeout [of out] by (auto simp: rw)
      have v: "status_verdict (snd (snd e0)) = Some r" using Some by (simp add: e0_def rw)
      show ?thesis unfolding ne using tr1 ck1 e0 nt v by (simp add: rw)
    next
      case None
      define w2 where "w2 = sleep pollInterval w1"
      from None True less.prems have rec: "pollOperation_loop E oid t0 mw w2 = (r, w')"
        by (simp add: poll_step [of E oid t0 mw w] out_def [symmetric] w1_def [symmetric] w2_def)
      have tr2: "trace w2 = trace w1" and ck2: "clock w2 = clock w1 + pollInterval"
        and cl2: "calls w2 = calls w1"
        by (simp_all add: w2_def sleep_world)
      have "t0 + mw - clock w2 < t0 + mw - clock w"
        using True ck1 ck2 by (simp add: pollInterval_def)
      note IH = less.hyps [OF this rec]
      note i1 = IH [THEN conjunct1]
      note i2 = IH [THEN conjunct2, THEN conjunct1]
      note i3 = IH [THEN conjunct2, THEN conjunct2, THEN conjunct1]
      note i4 = IH [THEN conjunct2, THEN conjunct2, THEN conjunct2, THEN conjunct1]
      note i5 = IH [THEN conjunct2, THEN conjunct2, THEN conjunct2, THEN conjunct2, THEN conjunct1]
      note i6 = IH [THEN conjunct2, THEN conjunct2, THEN conjunct2, THEN conjunct2, THEN conjunct2]
      let ?new = "new_entries w2 w'"
      have "trace w' = trace w @ (e0 # ?new)" using i1 tr2 tr1 by simp
      then have ne: "new_entries w w' = e0 # ?new" by (rule new_entries_append)
      have v0: "status_verdict (snd (snd e0)) = None" using None by (simp add: e0_def)
      have 1: "trace w' = trace w @ (e0 # ?new)" using i1 tr2 tr1 by simp
      have 2: "clock w \<le> clock w'" using i2 ck1 ck2 by simp
      have 3: "\<forall>e \<in> set (e0 # ?new).
        \<exists>t h. e = (t, ?c, vendor E h ?c) \<and> prefix (calls w) h \<and> t - t0 < mw"
      proof
        fix e assume "e \<in> set (e0 # ?new)"
        then consider "e = e0" | "e \<in> set ?new" by auto
        then show "\<exists>t h. e = (t, ?c, vendor E h ?c) \<and> prefix (calls w) h \<and> t - t0 < mw"
        proof cases
          case 1
          then show ?thesis using e0 by simp
        next
          case 2
          with i3 obtain t h where
            th: "e = (t, ?c, vendor E h ?c) \<and> prefix (calls w2) h \<and> t - t0 < mw"
            by blast
          then have "prefix (calls w) h"
            unfolding cl2 cl1 by (auto dest: append_prefixD)
          with th show ?thesis by blast
        qed
      qed
      have 4: "\<forall>e \<in> set (butlast (e0 # ?new)). status_verdict (snd (snd e)) = None"
        using i4 v0 by simp
      have 5: "r = Inl GenerationTimedOut \<longrightarrow>
        (\<forall>e \<in> set (e0 # ?new). status_verdict (snd (snd e)) = None) \<and> mw \<le> clock w' - t0"
        using i5 v0 by simp
      have 6: "r \<noteq> Inl GenerationTimedOut \<longrightarrow>
        e0 # ?new \<noteq> [] \<and> status_verdict (snd (snd (last (e0 # ?new)))) = Some r"
        using i6 by simp
      show ?thesis unfolding ne by (intro conjI) (rule 1 2 3 4 5 6)+
    qed
  qed
qed


lemma verdict_None_iff:
  "status_verdict out = None \<longleftrightarrow>
     (\<exists>st bd dn. out = Resolved st bd \<and> get_prop (parsed_or_text bd) ''done'' = Inr dn \<and>
        \<not> truthy dn)"
  by (auto simp: status_verdict_def split: outcome.splits sum.splits if_splits)

section \<open>Runs of the script\<close>

lemma list_all_butlast: "list_all P xs \<Longrightarrow> list_all P (butlast xs)"
  by (auto simp: list_all_iff dest: in_set_butlastD)

lemma accepted_no_failure: "accepted e \<Longrightarrow> upload_failure e = None"
  by (cases e rule: accepted.cases) auto

lemma media_ref_run:
  assumes m: "media_ref E p w = (r, w')"
  shows "trace w' = trace w @ new_entries w w' \<and> clock w \<le> clock w' \<and>
     list_all is_upload (new_entries w w') \<and> length (new_entries w w') \<le> 1 \<and>
     (\<forall>ref. r = Inr ref \<longrightarrow>
        list_all accepted (new_entries w w') \<and> map_of ref ''azimuth'' = None) \<and>
     (\<forall>e e'. r = Inl e \<and> new_entries w w' \<noteq> [] \<and>
        upload_failure (last (new_entries w w')) = Some e' \<longrightarrow> e = e')"
proof (cases "startsWith_http p \<or> \<not> readable E p")
  case True
  with m have "w' = w" and "\<forall>ref. r = Inr ref \<longrightarrow> map_of ref ''azimuth'' = None"
    by (auto simp: media_ref_def uploadFileRequest_def split: if_splits)
  then show ?thesis by simp
next
  case False
  let ?c = "MediaUpload p (mimeType p)"
  obtain a w1 where a: "apiRequest E ?c w = (a, w1)" by (cases "apiRequest E ?c w")
  define out where "out = vendor E (calls w) ?c"
  define e0 where "e0 = (clock w, ?c, out)"
  have tr: "trace w1 = trace w @ [e0]" and ck: "clock w \<le> clock w1"
    using apiRequest_entry(1,2) [OF a] by (simp_all add: e0_def out_def)
  from tr have ne1: "new_entries w w1 = [e0]" by (rule new_entries_append)
  have step: "media_ref E p w =
      (case a of
         Inl e \<Rightarrow> (Inl e, w1)
       | Inr (st, d) \<Rightarrow>
           if st \<noteq> 200 \<and> st \<noteq> 201 then (Inl (UploadFailed p d), w1)
           else (case media_id_of d of
                   Inl e \<Rightarrow> (Inl e, w1)
                 | Inr v \<Rightarrow> (Inr [(''media_id'', v)], w1)))"
    using False a by (simp add: media_ref_def uploadFileRequest_def split: sum.splits)
  show ?thesis
  proof (cases a)
    case (Inl x)
    with step m have rw: "r = Inl x" "w' = w1" by simp_all
    have "out = Rejected" using apiRequest_entry(4) [OF a Inl] by (simp add: out_def)
    then have "upload_failure e0 = None" by (simp add: e0_def)
    then show ?thesis by (simp add: rw ne1 tr ck e0_def)
  next
    case (Inr sd)
    obtain st d where sd: "sd = (st, d)" by (cases sd)
    from apiRequest_entry(5) [OF a] Inr sd obtain bd where
      bd: "out = Resolved st bd" "d = parsed_or_text bd"
      unfolding out_def by blast
    have e: "e0 = (clock w, ?c, Resolved st bd)" by (simp add: e0_def bd)
    show ?thesis
    proof (cases "st \<noteq> 200 \<and> st \<noteq> 201")
      case True
      with step m Inr sd have rw: "r = Inl (UploadFailed p d)" "w' = w1" by simp_all
      show ?thesis using True by (simp add: rw ne1 tr ck e bd(2))
    next
      case ok: False
      then have acc: "accepted e0" by (auto simp: e)
      then have nf: "upload_failure e0 = None" by (rule accepted_no_failure)
      show ?thesis
      proof (cases "media_id_of d")
        case (Inl x)
        with step m \<open>a = Inr sd\<close> sd ok have rw: "r = Inl x" "w' = w1" by simp_all
        show ?thesis using nf by (simp add: rw ne1 tr ck) (simp add: e)
      next
        case (Inr v)
        with step m \<open>a = Inr sd\<close> sd ok have rw: "r = Inr [(''media_id'', v)]" "w' = w1"
          by simp_all
        show ?thesis using acc by (simp add: rw ne1 tr ck) (simp add: e)
      qed
    qed
  qed
qed


lemma new_entries_compose:
  assumes "trace w1 = trace w @ new_entries w w1" and "trace w2 = trace w1 @ new_entries w1 w2"
  shows "new_entries w w2 = new_entries w w1 @ new_entries w1 w2"
    and "trace w2 = trace w @ new_entries w w2"
proof -
  show "new_entries w w2 = new_entries w w1 @ new_entries w1 w2"
    using assms by (rule new_entries_trans)
  then show "trace w2 = trace w @ new_entries w w2" using assms by simp
qed

lemma butlast_accepted_append:
  assumes "list_all accepted xs" and "list_all accepted (butlast ys)"
  shows "list_all accepted (butlast (xs @ ys))"
proof (cases "ys = []")
  case True
  then show ?thesis using assms(1) by (simp add: list_all_butlast)
next
  case False
  then show ?thesis using assms by (simp add: butlast_append)
qed

lemma multi_image_loop_run:
  "multi_image_loop E step ps i acc w = (r, w') \<Longrightarrow>
     trace w' = trace w @ new_entries w w' \<and> clock w \<le> clock w' \<and>
     list_all is_upload (new_entries w w') \<and>
     list_all accepted (butlast (new_entries w w')) \<and>
     (\<forall>imgs. r = Inr imgs \<longrightarrow> list_all accepted (new_entries w w')) \<and>
     (\<forall>e e'. r = Inl e \<and> new_entries w w' \<noteq> [] \<and>
        upload_failure (last (new_entries w w')) = Some e' \<longrightarrow> e = e')"
proof (induction ps arbitrary: i acc w)
  case Nil
  then have "w' = w" by simp
  then show ?case by simp
next
  case (Cons p rest)
  obtain r1 w1 where m: "media_ref E p w = (r1, w1)" by (cases "media_ref E p w")
  note M = media_ref_run [OF m]
  note m1 = M [THEN conjunct1]
  note m2 = M [THEN conjunct2, THEN conjunct1]
  note m3 = M [THEN conjunct2, THEN conjunct2, THEN conjunct1]
  note m4 = M [THEN conjunct2, THEN conjunct2, THEN conjunct2, THEN conjunct1]
  note m5 = M [THEN conjunct2, THEN conjunct2, THEN conjunct2, THEN conjunct2, THEN conjunct1]
  note m6 = M [THEN conjunct2, THEN conjunct2, THEN conjunct2, THEN conjunct2, THEN conjunct2]
  show ?case
  proof (cases r1)
    case (Inl x)
    with Cons.prems m have rw: "r = Inl x" "w' = w1" by simp_all
    have "list_all accepted (butlast (new_entries w w1))"
      using m4 by (cases "new_entries w w1") simp_all
    then show ?thesis using m1 m2 m3 m6 Inl unfolding rw by simp
  next
    case (Inr ref)
    let ?acc = "acc @ [JObj (ref @ [(''azimuth'', JNum (Math_round (js_mul i step)))])]"
    from Cons.prems m Inr have rec: "multi_image_loop E step rest (Suc i) ?acc w1 = (r, w')"
      by simp
    note IH = Cons.IH [OF rec]
    note n1 = IH [THEN conjunct1]
    note n2 = IH [THEN conjunct2, THEN conjunct1]
    note n3 = IH [THEN conjunct2, THEN conjunct2, THEN conjunct1]
    note n4 = IH [THEN conjunct2, THEN conjunct2, THEN conjunct2, THEN conjunct1]
    note n5 = IH [THEN conjunct2, THEN conjunct2, THEN conjunct2, THEN conjunct2, THEN conjunct1]
    note n6 = IH [THEN conjunct2, THEN conjunct2, THEN conjunct2, THEN conjunct2, THEN conjunct2]
    let ?x = "new_entries w w1" and ?y = "new_entries w1 w'"
    have acc1: "list_all accepted ?x" using m5 Inr by simp
    have ne: "new_entries w w' = ?x @ ?y" using m1 n1 by (rule new_entries_compose(1))
    have 1: "trace w' = trace w @ (?x @ ?y)" using m1 n1 by simp
    have 2: "clock w \<le> clock w'" using m2 n2 by simp
    have 3: "list_all is_upload (?x @ ?y)" using m3 n3 by simp
    have 4: "list_all accepted (butlast (?x @ ?y))"
      using acc1 n4 by (rule butlast_accepted_append)
    have 5: "\<forall>imgs. r = Inr imgs \<longrightarrow> list_all accepted (?x @ ?y)" using acc1 n5 by simp
    have 6: "\<forall>e e'. r = Inl e \<and> ?x @ ?y \<noteq> [] \<and>
        upload_failure (last (?x @ ?y)) = Some e' \<longrightarrow> e = e'"
    proof (cases "?y = []")
      case True
      have "upload_failure (last ?x) = None" if "?x \<noteq> []"
      proof -
        from that have "last ?x \<in> set ?x" by simp
        with acc1 have "accepted (last ?x)" by (simp add: list_all_iff)
        then show ?thesis by (rule accepted_no_failure)
      qed
      then show ?thesis using True by auto
    next
      case False
      then have "last (?x @ ?y) = last ?y" by simp
      then show ?thesis using n6 False by simp
    qed
    show ?thesis unfolding ne by (intro conjI) (rule 1 2 3 4 5 6)+
  qed
qed

lemma multi_image_loop_result:
  "multi_image_loop E step ps i acc w = (Inr imgs, w') \<Longrightarrow>
     length imgs = length acc + length ps \<and> take (length acc) imgs = acc \<and>
     (\<forall>k < length ps. get_opt (imgs ! (length acc + k)) ''azimuth'' =
         JNum (Math_round (js_mul (i + k) step)))"
proof (induction ps arbitrary: i acc w)
  case Nil
  then show ?case by simp
next
  case (Cons p rest)
  obtain r1 w1 where m: "media_ref E p w = (r1, w1)" by (cases "media_ref E p w")
  with Cons.prems obtain ref where ref: "r1 = Inr ref" by (cases r1) simp_all
  have na: "map_of ref ''azimuth'' = None"
    using media_ref_run [OF m] ref by simp
  let ?x = "JObj (ref @ [(''azimuth'', JNum (Math_round (js_mul i step)))])"
  from Cons.prems m ref have rec: "multi_image_loop E step rest (Suc i) (acc @ [?x]) w1 = (Inr imgs, w')"
    by simp
  note IH = Cons.IH [OF rec]
  note len = IH [THEN conjunct1]
  note tk = IH [THEN conjunct2, THEN conjunct1]
  note az = IH [THEN conjunct2, THEN conjunct2]
  have gx: "get_opt ?x ''azimuth'' = JNum (Math_round (js_mul i step))"
    using na by (simp add: map_add_def)
  have 1: "length imgs = length acc + length (p # rest)" using len by simp
  have tk': "take (Suc (length acc)) imgs = acc @ [?x]" using tk by simp
  have 2: "take (length acc) imgs = acc"
  proof -
    have "take (length acc) imgs = take (length acc) (take (Suc (length acc)) imgs)"
      by (simp add: min_def)
    then show ?thesis unfolding tk' by simp
  qed
  have x: "imgs ! length acc = ?x"
  proof -
    have "imgs ! length acc = take (Suc (length acc)) imgs ! length acc" by simp
    then show ?thesis unfolding tk' by simp
  qed
  have 3: "\<forall>k < length (p # rest). get_opt (imgs ! (length acc + k)) ''azimuth'' =
         JNum (Math_round (js_mul (i + k) step))"
  proof (intro allI impI)
    fix k assume k: "k < length (p # rest)"
    show "get_opt (imgs ! (length acc + k)) ''azimuth'' =
         JNum (Math_round (js_mul (i + k) step))"
    proof (cases k)
      case 0
      then show ?thesis using x gx by simp
    next
      case (Suc j)
      with k have "j < length rest" by simp
      with az have "get_opt (imgs ! (length (acc @ [?x]) + j)) ''azimuth'' =
         JNum (Math_round (js_mul (Suc i + j) step))" by blast
      then show ?thesis using Suc by simp
    qed
  qed
  from 1 2 3 show ?case by (intro conjI)
qed


lemma post_generate_run:
  assumes "post_generate E b w = (r, w')"
  shows "new_entries w w' = [(clock w, WorldsGenerate b, vendor E (calls w) (WorldsGenerate b))]"
    and "trace w' = trace w @ new_entries w w'" and "clock w \<le> clock w'"
proof -
  obtain a w1 where a: "apiRequest E (WorldsGenerate b) w = (a, w1)"
    by (cases "apiRequest E (WorldsGenerate b) w")
  with assms have w': "w' = w1"
    by (auto simp: post_generate_def split: sum.splits if_splits)
  from apiRequest_entry(1) [OF a]
  show 1: "new_entries w w' = [(clock w, WorldsGenerate b, vendor E (calls w) (WorldsGenerate b))]"
    unfolding w' by (rule new_entries_append)
  show "trace w' = trace w @ new_entries w w'"
    unfolding 1 using apiRequest_entry(1) [OF a] by (simp add: w')
  show "clock w \<le> clock w'" using apiRequest_entry(2) [OF a] by (simp add: w')
qed

lemma upload_then_generate:
  assumes t: "trace w1 = trace w @ new_entries w w1" and c: "clock w \<le> clock w1"
    and u: "list_all is_upload (new_entries w w1)"
    and b: "list_all accepted (butlast (new_entries w w1))"
    and ok: "\<forall>v. r1 = Inr v \<longrightarrow> list_all accepted (new_entries w w1)"
    and bad: "\<forall>e e'. r1 = Inl e \<and> new_entries w w1 \<noteq> [] \<and>
        upload_failure (last (new_entries w w1)) = Some e' \<longrightarrow> e = e'"
    and res: "(case r1 of Inl e \<Rightarrow> (Inl e, w1) | Inr v \<Rightarrow> post_generate E (body v) w1) = (r, w')"
  shows "trace w' = trace w @ new_entries w w' \<and> clock w \<le> clock w' \<and>
     (\<exists>ups gen. new_entries w w' = ups @ gen \<and> generate_phase r ups gen)"
proof (cases r1)
  case (Inl e)
  with res have rw: "r = Inl e" "w' = w1" by simp_all
  have "generate_phase r (new_entries w w1) []"
    using u b bad Inl by (simp add: generate_phase_def upload_phase_def rw)
  then have "\<exists>ups gen. new_entries w w1 = ups @ gen \<and> generate_phase r ups gen"
    by (intro exI [of _ "new_entries w w1"] exI [of _ "[]"]) simp
  with t c show ?thesis unfolding rw by simp
next
  case (Inr v)
  with res have pg: "post_generate E (body v) w1 = (r, w')" by simp
  note P = post_generate_run [OF pg]
  let ?g = "(clock w1, WorldsGenerate (body v), vendor E (calls w1) (WorldsGenerate (body v)))"
  have ne: "new_entries w w' = new_entries w w1 @ [?g]"
    using t P(2) unfolding P(1) by (rule new_entries_trans)
  have acc: "list_all accepted (new_entries w w1)" using ok Inr by simp
  have "generate_phase r (new_entries w w1) [?g]"
    using u b acc by (simp add: generate_phase_def upload_phase_def)
  then have "\<exists>ups gen. new_entries w w' = ups @ gen \<and> generate_phase r ups gen"
    unfolding ne by (intro exI [of _ "new_entries w w1"] exI [of _ "[?g]"]) simp
  moreover have "trace w' = trace w @ new_entries w w'"
    using t P(2) by (rule new_entries_compose(2))
  moreover have "clock w \<le> clock w'" using c P(3) by simp
  ultimately show ?thesis by simp
qed

lemma generate_for_run:
  assumes g: "generate_for E inp nm model w = (r, w')"
  shows "trace w' = trace w @ new_entries w w' \<and> clock w \<le> clock w' \<and>
     (\<exists>ups gen. new_entries w w' = ups @ gen \<and> generate_phase r ups gen)"
proof (cases inp)
  case (TextInput tx)
  let ?b = "generate_body (JObj [(''text_prompt'', JStr tx)]) (display_name nm (take 50 tx)) model"
  have "(case (Inr () :: error + unit) of Inl e \<Rightarrow> (Inl e, w)
      | Inr v \<Rightarrow> post_generate E ((\<lambda>_. ?b) v) w) = (r, w')"
    using g TextInput by (simp add: generate_for_def generateFromText_def)
  then show ?thesis
    by (intro upload_then_generate [where ?r1.0 = "Inr ()" and ?w1.0 = w and body = "\<lambda>_. ?b"])
      simp_all
next
  case (ImageInput p)
  obtain r1 w1 where m: "media_ref E p w = (r1, w1)" by (cases "media_ref E p w")
  note M = media_ref_run [OF m]
  have b: "list_all accepted (butlast (new_entries w w1))"
    using M [THEN conjunct2, THEN conjunct2, THEN conjunct2, THEN conjunct1]
    by (cases "new_entries w w1") simp_all
  have "(case r1 of Inl e \<Rightarrow> (Inl e, w1)
      | Inr v \<Rightarrow> post_generate E ((\<lambda>imageRef. generate_body (JObj [(''image_prompt'', JObj imageRef)])
               (display_name nm ''Property Tour'') model) v) w1) = (r, w')"
    using g ImageInput m by (simp add: generate_for_def generateFromImage_def split: sum.splits)
  with M b show ?thesis
    by (intro upload_then_generate [where ?r1.0 = r1 and ?w1.0 = w1]) simp_all
next
  case (MultiInput ps)
  obtain r1 w1 where m: "multi_image_loop E (angleStep (length ps)) ps 0 [] w = (r1, w1)"
    by (cases "multi_image_loop E (angleStep (length ps)) ps 0 [] w")
  note M = multi_image_loop_run [OF m]
  have "(case r1 of Inl e \<Rightarrow> (Inl e, w1)
      | Inr v \<Rightarrow> post_generate E ((\<lambda>imgs. generate_body
               (JObj [(''multi_image_prompt'', JObj [(''images'', JArr imgs)])])
               (display_name nm ''Property Tour'') model) v) w1) = (r, w')"
    using g MultiInput m
    by (simp add: generate_for_def generateFromMultiImage_def split: sum.splits)
  with M show ?thesis
    by (intro upload_then_generate [where ?r1.0 = r1 and ?w1.0 = w1]) simp_all
next
  case (VideoInput p)
  obtain r1 w1 where m: "media_ref E p w = (r1, w1)" by (cases "media_ref E p w")
  note M = media_ref_run [OF m]
  have b: "list_all accepted (butlast (new_entries w w1))"
    using M [THEN conjunct2, THEN conjunct2, THEN conjunct2, THEN conjunct1]
    by (cases "new_entries w w1") simp_all
  have "(case r1 of Inl e \<Rightarrow> (Inl e, w1)
      | Inr v \<Rightarrow> post_generate E ((\<lambda>videoRef. generate_body (JObj [(''video_prompt'', JObj videoRef)])
               (display_name nm ''Property Tour'') model) v) w1) = (r, w')"
    using g VideoInput m by (simp add: generate_for_def generateFromVideo_def split: sum.splits)
  with M b show ?thesis
    by (intro upload_then_generate [where ?r1.0 = r1 and ?w1.0 = w1]) simp_all
qed


lemma get_prop_Inr: "get_prop v k = Inr x \<Longrightarrow> x = get_opt v k"
  by (cases v) auto

lemma resolve_completed_Saved:
  assumes "resolve_completed nm draft oid d now = Saved r"
  shows "tour_response r = get_opt d ''response'' \<and> truthy (tour_response r) \<and>
     worldId r = world_id_of (tour_response r) \<and>
     viewUrl r = JStr (default_view_url (worldId r))"
proof (cases "get_prop d ''response''")
  case (Inl e)
  with assms show ?thesis by (simp add: resolve_completed_def)
next
  case (Inr resp)
  then have "resp = get_opt d ''response''" by (rule get_prop_Inr)
  with assms Inr show ?thesis
    by (auto simp: resolve_completed_def split: if_splits)
qed

lemma main_run:
  assumes mn: "main E inp nm draft w = (out, w')"
  shows "\<exists>ups gen polls. new_entries w w' = ups @ gen @ polls \<and> main_shape out ups gen polls"
proof -
  obtain r1 w1 where g: "generate_for E inp nm (cli_model draft) w = (r1, w1)"
    by (cases "generate_for E inp nm (cli_model draft) w")
  note G = generate_for_run [OF g]
  note g1 = G [THEN conjunct1]
  from G [THEN conjunct2, THEN conjunct2] obtain ups gen where
    ug: "new_entries w w1 = ups @ gen" and gp: "generate_phase r1 ups gen"
    by blast
  note gp' = gp [unfolded generate_phase_def]
  note p1 = gp' [THEN conjunct1]
  note p2 = gp' [THEN conjunct2, THEN conjunct1]
  note p3 = gp' [THEN conjunct2, THEN conjunct2, THEN conjunct1]
  note p4 = gp' [THEN conjunct2, THEN conjunct2, THEN conjunct2]
  have early: "\<exists>ups gen polls. new_entries w w' = ups @ gen @ polls \<and> main_shape out ups gen polls"
    if w': "w' = w1" and out: "out = Exit1 e" and e: "r1 = Inl e \<or> gen \<noteq> []" for e
  proof -
    have "\<forall>e'. gen = [] \<and> ups \<noteq> [] \<and> upload_failure (last ups) = Some e' \<longrightarrow> out = Exit1 e'"
      using p4 e out by auto
    then have "main_shape out ups gen []"
      using p1 p2 out by (simp add: main_shape_def)
    then show ?thesis unfolding w' using ug
      by (intro exI [of _ ups] exI [of _ gen] exI [of _ "[]"]) simp
  qed
  show ?thesis
  proof (cases r1)
    case (Inl e)
    with mn g have "out = Exit1 e" "w' = w1" by (simp_all add: main_def)
    then show ?thesis using Inl by (intro early [of e]) simp_all
  next
    case (Inr result)
    with p3 have gne: "gen \<noteq> []" by simp
    show ?thesis
    proof (cases "get_prop result ''operation_id''")
      case (Inl e)
      with mn g Inr have "out = Exit1 e" "w' = w1" by (simp_all add: main_def)
      then show ?thesis using gne by (intro early [of e]) simp_all
    next
      case oid: (Inr oid)
      obtain r2 w2 where p: "pollOperation_loop E oid (clock w1) 300000 w1 = (r2, w2)"
        by (cases "pollOperation_loop E oid (clock w1) 300000 w1")
      then have pp: "pollOperation E oid 300000 w1 = (r2, w2)" by (simp add: pollOperation_def)
      note R = poll_run [OF p]
      note r1' = R [THEN conjunct1]
      note r3 = R [THEN conjunct2, THEN conjunct2, THEN conjunct1]
      note r4 = R [THEN conjunct2, THEN conjunct2, THEN conjunct2, THEN conjunct1]
      note r5 = R [THEN conjunct2, THEN conjunct2, THEN conjunct2, THEN conjunct2, THEN conjunct1]
      note r6 = R [THEN conjunct2, THEN conjunct2, THEN conjunct2, THEN conjunct2, THEN conjunct2]
      define polls where "polls = new_entries w1 w2"
      have w': "w' = w2" using mn g Inr oid pp by (simp add: main_def split: sum.splits)
      have ne: "new_entries w w' = ups @ gen @ polls"
        using new_entries_compose(1) [OF g1 r1'] ug by (simp add: w' polls_def)
      have st: "list_all is_status polls"
        unfolding polls_def list_all_iff
      proof
        fix e assume "e \<in> set (new_entries w1 w2)"
        with r3 obtain t h where "e = (t, GetOperation (ToString oid), vendor E h (GetOperation (ToString oid)))"
          by blast
        then show "is_status e" by simp
      qed
      have bl: "list_all (\<lambda>e. status_verdict (snd (snd e)) = None) (butlast polls)"
        using r4 by (simp add: polls_def list_all_iff)
      have B: "\<forall>e. polls \<noteq> [] \<and> status_verdict (snd (snd (last polls))) = Some (Inl e) \<longrightarrow>
          r2 = Inl e"
      proof (cases "r2 = Inl GenerationTimedOut")
        case True
        have "status_verdict (snd (snd (last polls))) = None" if "polls \<noteq> []"
        proof -
          from that have "last polls \<in> set polls" by simp
          with r5 True show ?thesis by (simp add: polls_def)
        qed
        then show ?thesis by auto
      next
        case False
        with r6 have "status_verdict (snd (snd (last polls))) = Some r2" by (simp add: polls_def)
        then show ?thesis by simp
      qed
      have out: "out = (case r2 of Inl e \<Rightarrow> Exit1 e
          | Inr completed \<Rightarrow> resolve_completed nm draft oid completed (clock w2))"
        using mn g Inr oid pp by (auto simp: main_def split: sum.splits)
      have B': "\<forall>e. polls \<noteq> [] \<and> status_verdict (snd (snd (last polls))) = Some (Inl e) \<longrightarrow>
          out = Exit1 e"
        using B out by auto
      have C: "\<forall>r. out = Saved r \<longrightarrow>
         polls \<noteq> [] \<and>
         (\<exists>d. status_verdict (snd (snd (last polls))) = Some (Inr d) \<and>
            tour_response r = get_opt d ''response'' \<and> truthy (tour_response r) \<and>
            worldId r = world_id_of (tour_response r) \<and>
            viewUrl r = JStr (default_view_url (worldId r)))"
      proof (intro allI impI)
        fix r assume sv: "out = Saved r"
        with out obtain d where d: "r2 = Inr d"
          and rc: "resolve_completed nm draft oid d (clock w2) = Saved r"
          by (cases r2) simp_all
        from d r6 have "polls \<noteq> []"
          and "status_verdict (snd (snd (last polls))) = Some (Inr d)"
          by (simp_all add: polls_def)
        with resolve_completed_Saved [OF rc]
        show "polls \<noteq> [] \<and>
         (\<exists>d. status_verdict (snd (snd (last polls))) = Some (Inr d) \<and>
            tour_response r = get_opt d ''response'' \<and> truthy (tour_response r) \<and>
            worldId r = world_id_of (tour_response r) \<and>
            viewUrl r = JStr (default_view_url (worldId r)))"
          by (intro conjI exI [of _ d]) auto
      qed
      have "main_shape out ups gen polls"
        unfolding main_shape_def using p1 p2 gne st bl B' C by (intro conjI) simp_all
      with ne show ?thesis by (intro exI [of _ ups] exI [of _ gen] exI [of _ polls]) simp
    qed
  qed
qed

section \<open>Runs of the first web handler\<close>

lemma only_last:
  assumes "e \<in> set xs" and "\<not> P e" and "list_all P (butlast xs)"
  shows "xs \<noteq> [] \<and> last xs = e"
proof -
  from assms(1) have ne: "xs \<noteq> []" by auto
  then have "xs = butlast xs @ [last xs]" by simp
  then have "set xs = set (butlast xs) \<union> {last xs}"
    by (metis list.set(1) list.simps(15) set_append Un_insert_right sup_bot.right_neutral)
  with assms(1) have "e \<in> set (butlast xs) \<or> e = last xs" by auto
  moreover have "e \<notin> set (butlast xs)" using assms(2,3) by (auto simp: list_all_iff)
  ultimately show ?thesis using ne by simp
qed

lemma handler_media_run:
  assumes h: "handler_media E apiKey method b w = (res, w')"
  shows "\<exists>ups gen. new_entries w w' = ups @ gen \<and> upload_phase ups \<and>
     (gen = [] \<or> list_all accepted ups \<and> (\<exists>t bd out. gen = [(t, WorldsGenerate bd, out)])) \<and>
     (\<forall>t p m st bd. gen = [] \<and> ups \<noteq> [] \<and>
        last ups = (t, MediaUpload p m, Resolved st bd) \<and> st \<noteq> 200 \<and> st \<noteq> 201 \<longrightarrow>
        res = Responded 500 (JObj [(''error'', JStr (''Failed to upload '' @ p)),
                (''details'', parsed_or_text bd)]))"
proof (cases "method \<noteq> ''POST'' \<or> apiKey = [] \<or> no_images (images b)")
  case True
  with h have "w' = w" by (auto simp: handler_media_def split: if_splits)
  then show ?thesis
    by (intro exI [of _ "[]"]) (simp add: upload_phase_def)
next
  case False
  then obtain imgs where imgs: "images b = Some imgs"
    by (auto simp: no_images_def split: option.splits)
  obtain r w1 where u: "upload_loop E (length imgs) imgs 0 [] w = (r, w1)"
    by (cases "upload_loop E (length imgs) imgs 0 [] w")
  note T = upload_loop_trace [OF u]
  note t1 = T [THEN conjunct1]
  note t2 = T [THEN conjunct2, THEN conjunct1]
  note t3 = T [THEN conjunct2, THEN conjunct2, THEN conjunct1]
  note t4 = T [THEN conjunct2, THEN conjunct2, THEN conjunct2, THEN conjunct1]
  note t5 = T [THEN conjunct2, THEN conjunct2, THEN conjunct2, THEN conjunct2]
  have up: "upload_phase (new_entries w w1)" using t2 t3 by (simp add: upload_phase_def)
  show ?thesis
  proof (cases r)
    case (Inl x)
    with h u False imgs have rw: "res = x" "w' = w1" by (simp_all add: handler_media_def)
    have "\<forall>t p m st bd. new_entries w w1 \<noteq> [] \<and>
        last (new_entries w w1) = (t, MediaUpload p m, Resolved st bd) \<and> st \<noteq> 200 \<and> st \<noteq> 201 \<longrightarrow>
        res = Responded 500 (JObj [(''error'', JStr (''Failed to upload '' @ p)),
                (''details'', parsed_or_text bd)])"
      using t5 Inl unfolding rw by blast
    with up show ?thesis unfolding rw
      by (intro exI [of _ "new_entries w w1"] exI [of _ "[]"]) simp
  next
    case (Inr uploaded)
    let ?body = "generate_body (media_world_prompt uploaded)
      (display_name (req_name b) ''Property Tour'') (web_model (req_mode b))"
    obtain a w2 where a: "apiRequest E (WorldsGenerate ?body) w1 = (a, w2)"
      by (cases "apiRequest E (WorldsGenerate ?body) w1")
    have w': "w' = w2"
      using h u False imgs Inr a
      by (auto simp: handler_media_def split: sum.splits prod.splits if_splits)
    let ?g = "(clock w1, WorldsGenerate ?body, vendor E (calls w1) (WorldsGenerate ?body))"
    have ne: "new_entries w w2 = new_entries w w1 @ [?g]"
      using t1 apiRequest_entry(1) [OF a] by (rule new_entries_trans)
    have acc: "list_all accepted (new_entries w w1)" using t4 Inr by simp
    show ?thesis unfolding w' ne
      using up acc by (intro exI [of _ "new_entries w w1"] exI [of _ "[?g]"]) simp
  qed
qed

section \<open>Runs of the web page\<close>

















section \<open>Claims\<close>





text \<open>
  C6. In the direction-control branch of the newest handler (two or more images, layout
  mode other than \<open>auto\<close>), the single submitted prompt has one entry per image, and at
  every index the azimuth is the fixed degree value of the image's compass direction
  (front 0, right 90, back 180, left 270) and 0 for an image without a direction.
\<close>

theorem direction_azimuths:
  assumes "method = ''POST''" and "apiKey \<noteq> []"
    and "inputType b \<noteq> ''video''" and "inputType b \<noteq> ''panorama''"
    and "images b = Some imgs" and "2 \<le> length imgs" and "layoutMode b \<noteq> ''auto''"
  shows "\<exists>entries.
     submitted w (snd (handler_layout E apiKey method b w)) =
       [generate_body (multi_prompt entries) (display_name (req_name b) ''Property Tour'')
          (web_model (req_mode b))] \<and>
     length entries = length imgs \<and>
     (\<forall>i < length imgs.
        (direction (imgs ! i) = Some ''front'' \<longrightarrow> get_opt (entries ! i) ''azimuth'' = JNum 0) \<and>
        (direction (imgs ! i) = Some ''right'' \<longrightarrow> get_opt (entries ! i) ''azimuth'' = JNum 90) \<and>
        (direction (imgs ! i) = Some ''back'' \<longrightarrow> get_opt (entries ! i) ''azimuth'' = JNum 180) \<and>
        (direction (imgs ! i) = Some ''left'' \<longrightarrow> get_opt (entries ! i) ''azimuth'' = JNum 270) \<and>
        (direction (imgs ! i) = None \<or> direction (imgs ! i) = Some [] \<longrightarrow>
           get_opt (entries ! i) ''azimuth'' = JNum 0))"
proof -
  let ?entries = "map (\<lambda>img. JObj [(''azimuth'', direction_azimuth (direction img)),
                             (''content'', base64_content (img_data img))]) imgs"
  have "layout_world_prompt b = Inr (multi_prompt ?entries)"
    using assms by (auto simp: layout_world_prompt_def no_images_def)
  from handler_layout_submitted [OF assms(1,2) this]
  have "submitted w (snd (handler_layout E apiKey method b w)) =
       [generate_body (multi_prompt ?entries) (display_name (req_name b) ''Property Tour'')
          (web_model (req_mode b))]" .
  moreover have "length ?entries = length imgs" by simp
  moreover have "\<forall>i < length imgs.
        (direction (imgs ! i) = Some ''front'' \<longrightarrow> get_opt (?entries ! i) ''azimuth'' = JNum 0) \<and>
        (direction (imgs ! i) = Some ''right'' \<longrightarrow> get_opt (?entries ! i) ''azimuth'' = JNum 90) \<and>
        (direction (imgs ! i) = Some ''back'' \<longrightarrow> get_opt (?entries ! i) ''azimuth'' = JNum 180) \<and>
        (direction (imgs ! i) = Some ''left'' \<longrightarrow> get_opt (?entries ! i) ''azimuth'' = JNum 270) \<and>
        (direction (imgs ! i) = None \<or> direction (imgs ! i) = Some [] \<longrightarrow>
           get_opt (?entries ! i) ''azimuth'' = JNum 0)"
    by (auto simp: direction_azimuth_def directions_def)
  ultimately show ?thesis by blast
qed

theorem direction_azimuths_witness:
  "\<exists>entries.
     submitted world0 (snd (handler_layout (scripted [] Rejected) ''key'' ''POST''
       (photos_body [photo ''a.jpg'' (Some ''left''), photo ''b.jpg'' None,
          photo ''c.jpg'' (Some ''front'')] ''direction'') world0)) =
       [generate_body (multi_prompt entries) (JStr ''Loft'') ''Marble 0.1-mini''] \<and>
     length entries = 3 \<and>
     get_opt (entries ! 0) ''azimuth'' = JNum 270 \<and>
     get_opt (entries ! 1) ''azimuth'' = JNum 0 \<and>
     get_opt (entries ! 2) ''azimuth'' = JNum 0"
proof -
  let ?imgs = "[photo ''a.jpg'' (Some ''left''), photo ''b.jpg'' None,
    photo ''c.jpg'' (Some ''front'')]"
  let ?b = "photos_body ?imgs ''direction''"
  have "''POST'' = ''POST''" and "''key'' \<noteq> []" and "inputType ?b \<noteq> ''video''"
    and "inputType ?b \<noteq> ''panorama''" and "images ?b = Some ?imgs" and "2 \<le> length ?imgs"
    and "layoutMode ?b \<noteq> ''auto''"
    by (simp_all add: photos_body_def)
  from direction_azimuths [OF this, of world0 "scripted [] Rejected"]
  obtain entries where
    e: "submitted world0 (snd (handler_layout (scripted [] Rejected) ''key'' ''POST'' ?b world0)) =
       [generate_body (multi_prompt entries) (display_name (req_name ?b) ''Property Tour'')
          (web_model (req_mode ?b))]"
      "length entries = length ?imgs"
      "\<forall>i < length ?imgs.
        (direction (?imgs ! i) = Some ''front'' \<longrightarrow> get_opt (entries ! i) ''azimuth'' = JNum 0) \<and>
        (direction (?imgs ! i) = Some ''right'' \<longrightarrow> get_opt (entries ! i) ''azimuth'' = JNum 90) \<and>
        (direction (?imgs ! i) = Some ''back'' \<longrightarrow> get_opt (entries ! i) ''azimuth'' = JNum 180) \<and>
        (direction (?imgs ! i) = Some ''left'' \<longrightarrow> get_opt (entries ! i) ''azimuth'' = JNum 270) \<and>
        (direction (?imgs ! i) = None \<or> direction (?imgs ! i) = Some [] \<longrightarrow>
           get_opt (entries ! i) ''azimuth'' = JNum 0)"
    by blast
  from e(3) have "get_opt (entries ! 0) ''azimuth'' = JNum 270"
    and "get_opt (entries ! 1) ''azimuth'' = JNum 0"
    and "get_opt (entries ! 2) ''azimuth'' = JNum 0"
    by (simp_all add: photo_def)
  with e(1,2) show ?thesis
    by (intro exI [of _ entries]) (simp add: photos_body_def display_name_def web_model_def)
qed

text \<open>
  C10. In the newest handler, two or more images with layout mode \<open>auto\<close> are submitted
  as one multi-image prompt with one entry per image, and no entry has an azimuth field.
\<close>

theorem auto_layout_no_azimuth:
  assumes "method = ''POST''" and "apiKey \<noteq> []"
    and "inputType b \<noteq> ''video''" and "inputType b \<noteq> ''panorama''"
    and "images b = Some imgs" and "2 \<le> length imgs" and "layoutMode b = ''auto''"
  shows "\<exists>entries.
     submitted w (snd (handler_layout E apiKey method b w)) =
       [generate_body (multi_prompt entries) (display_name (req_name b) ''Property Tour'')
          (web_model (req_mode b))] \<and>
     length entries = length imgs \<and>
     (\<forall>e \<in> set entries. \<not> has_key e ''azimuth'')"
proof -
  let ?entries = "map (\<lambda>img. JObj [(''content'', base64_content (img_data img))]) imgs"
  have "layout_world_prompt b = Inr (multi_prompt ?entries)"
    using assms by (auto simp: layout_world_prompt_def no_images_def)
  from handler_layout_submitted [OF assms(1,2) this]
  have "submitted w (snd (handler_layout E apiKey method b w)) =
       [generate_body (multi_prompt ?entries) (display_name (req_name b) ''Property Tour'')
          (web_model (req_mode b))]" .
  moreover have "length ?entries = length imgs" by simp
  moreover have "\<forall>e \<in> set ?entries. \<not> has_key e ''azimuth''"
    by (auto simp: has_key_def)
  ultimately show ?thesis by blast
qed

theorem auto_layout_no_azimuth_witness:
  "\<exists>entries.
     submitted world0 (snd (handler_layout (scripted [] Rejected) ''key'' ''POST''
       (photos_body [photo ''a.jpg'' None, photo ''b.jpg'' None] ''auto'') world0)) =
       [generate_body (multi_prompt entries) (JStr ''Loft'') ''Marble 0.1-mini''] \<and>
     length entries = 2 \<and>
     \<not> has_key (entries ! 0) ''azimuth'' \<and> \<not> has_key (entries ! 1) ''azimuth''"
proof -
  let ?imgs = "[photo ''a.jpg'' None, photo ''b.jpg'' None]"
  let ?b = "photos_body ?imgs ''auto''"
  have "''POST'' = ''POST''" and "''key'' \<noteq> []" and "inputType ?b \<noteq> ''video''"
    and "inputType ?b \<noteq> ''panorama''" and "images ?b = Some ?imgs" and "2 \<le> length ?imgs"
    and "layoutMode ?b = ''auto''"
    by (simp_all add: photos_body_def)
  from auto_layout_no_azimuth [OF this, of world0 "scripted [] Rejected"]
  obtain entries where
    e: "submitted world0 (snd (handler_layout (scripted [] Rejected) ''key'' ''POST'' ?b world0)) =
       [generate_body (multi_prompt entries) (display_name (req_name ?b) ''Property Tour'')
          (web_model (req_mode ?b))]"
      "length entries = length ?imgs"
      "\<forall>e \<in> set entries. \<not> has_key e ''azimuth''"
    by blast
  from e(2) have "entries ! 0 \<in> set entries" and "entries ! 1 \<in> set entries" by simp_all
  with e(3) have "\<not> has_key (entries ! 0) ''azimuth''" and "\<not> has_key (entries ! 1) ''azimuth''"
    by blast+
  with e(1,2) show ?thesis
    by (intro exI [of _ entries]) (simp add: photos_body_def display_name_def web_model_def)
qed












text \<open>
  C7. When a polled status is done without error, the current page's loop ends with a
  result after exactly one lookup call; the result's viewer URL is the one supplied by a
  successful lookup, and the default template when the lookup fails in any way or
  supplies none.
\<close>

theorem enrichment_fallback:
  assumes "request E (ApiStatus (ToString oid)) (sleep 3000 w0) = (Resolved st (Json statusData), w)"
    and "get_prop statusData ''done'' = Inr dn" and "truthy dn"
    and "get_prop statusData ''error'' = Inr er" and "\<not> truthy er"
  shows "\<exists>r w'.
     status_loop E (on_done E nm) oid w0 = Some (Inr r, w') \<and>
     worldId r = world_id_of (get_opt statusData ''response'') \<and>
     (canonical_url (vendor E (calls w) (ApiWorld (ToString (worldId r)))) = None \<longrightarrow>
        viewUrl r = JStr (default_view_url (worldId r))) \<and>
     (\<forall>u. canonical_url (vendor E (calls w) (ApiWorld (ToString (worldId r)))) = Some u \<longrightarrow>
        viewUrl r = u) \<and>
     new_entries w w' =
       [(clock w, ApiWorld (ToString (worldId r)),
         vendor E (calls w) (ApiWorld (ToString (worldId r))))]"
proof -
  have "status_loop E (on_done E nm) oid w0 = Some (on_done E nm statusData w)"
    using assms(1-3) by (rule status_loop_done)
  with on_done_result [OF assms(4,5), of E nm w] show ?thesis by auto
qed

text \<open>A lookup answered with 404, and one answered with a viewer URL.\<close>

theorem enrichment_fallback_witness:
  "(\<exists>r w'. status_loop
       (scripted [Resolved 200 (Json (JObj [(''done'', JBool True),
            (''response'', JObj [(''world_id'', JStr ''abc123'')])])),
          Resolved 404 (Raw ''Not found'')] Rejected)
       (on_done (scripted [Resolved 200 (Json (JObj [(''done'', JBool True),
            (''response'', JObj [(''world_id'', JStr ''abc123'')])])),
          Resolved 404 (Raw ''Not found'')] Rejected) ''Loft'') (JStr ''op1'') world0 = Some (Inr r, w') \<and>
     viewUrl r = JStr ''https://platform.worldlabs.ai/worlds/abc123'') \<and>
   (\<exists>r w'. status_loop
       (scripted [Resolved 200 (Json (JObj [(''done'', JBool True),
            (''response'', JObj [(''world_id'', JStr ''abc123'')])])),
          Resolved 200 (Json (JObj [(''world_marble_url'', JStr ''https://marble.worldlabs.ai/world/abc123'')]))]
          Rejected)
       (on_done (scripted [Resolved 200 (Json (JObj [(''done'', JBool True),
            (''response'', JObj [(''world_id'', JStr ''abc123'')])])),
          Resolved 200 (Json (JObj [(''world_marble_url'', JStr ''https://marble.worldlabs.ai/world/abc123'')]))]
          Rejected) ''Loft'') (JStr ''op1'') world0 = Some (Inr r, w') \<and>
     viewUrl r = JStr ''https://marble.worldlabs.ai/world/abc123'')"
proof -
  define sd where "sd = JObj [(''done'', JBool True),
            (''response'', JObj [(''world_id'', JStr ''abc123'')])]"
  define E1 where "E1 = scripted [Resolved 200 (Json sd), Resolved 404 (Raw ''Not found'')] Rejected"
  define E2 where "E2 = scripted [Resolved 200 (Json sd),
     Resolved 200 (Json (JObj [(''world_marble_url'', JStr ''https://marble.worldlabs.ai/world/abc123'')]))]
     Rejected"
  define w where "w = \<lparr>clock = 3000, trace = [(3000, ApiStatus ''op1'', Resolved 200 (Json sd))]\<rparr>"
  have r1: "request E1 (ApiStatus (ToString (JStr ''op1''))) (sleep 3000 world0) =
      (Resolved 200 (Json sd), w)"
    by (simp add: request_def sleep_def world0_def E1_def scripted_def calls_def w_def Let_def)
  have r2: "request E2 (ApiStatus (ToString (JStr ''op1''))) (sleep 3000 world0) =
      (Resolved 200 (Json sd), w)"
    by (simp add: request_def sleep_def world0_def E2_def scripted_def calls_def w_def Let_def)
  have d: "get_prop sd ''done'' = Inr (JBool True)" "truthy (JBool True)"
    "get_prop sd ''error'' = Inr JUndefined" "\<not> truthy JUndefined"
    by (simp_all add: sd_def)
  have wid: "world_id_of (get_opt sd ''response'') = JStr ''abc123''"
    by (simp add: sd_def world_id_of_def js_or_def)
  from enrichment_fallback [OF r1 d, of "''Loft''"] obtain r w' where
    all: "status_loop E1 (on_done E1 ''Loft'') (JStr ''op1'') world0 = Some (Inr r, w') \<and>
     worldId r = world_id_of (get_opt sd ''response'') \<and>
     (canonical_url (vendor E1 (calls w) (ApiWorld (ToString (worldId r)))) = None \<longrightarrow>
        viewUrl r = JStr (default_view_url (worldId r))) \<and>
     (\<forall>u. canonical_url (vendor E1 (calls w) (ApiWorld (ToString (worldId r)))) = Some u \<longrightarrow>
        viewUrl r = u) \<and>
     new_entries w w' =
       [(clock w, ApiWorld (ToString (worldId r)),
         vendor E1 (calls w) (ApiWorld (ToString (worldId r))))]"
    by (elim exE) (rule that)
  note a1 = all [THEN conjunct1]
  note a2 = all [THEN conjunct2, THEN conjunct1]
  note a3 = all [THEN conjunct2, THEN conjunct2, THEN conjunct1]
  have "canonical_url (vendor E1 (calls w) (ApiWorld (ToString (JStr ''abc123'')))) = None"
    by (simp add: E1_def scripted_def calls_def w_def)
  with a2 a3 wid have "viewUrl r = JStr ''https://platform.worldlabs.ai/worlds/abc123''"
    by (simp add: default_view_url_def)
  with a1 have A: "\<exists>r w'. status_loop E1 (on_done E1 ''Loft'') (JStr ''op1'') world0 = Some (Inr r, w') \<and>
     viewUrl r = JStr ''https://platform.worldlabs.ai/worlds/abc123''"
    by (intro exI [of _ r] exI [of _ w'] conjI)
  from enrichment_fallback [OF r2 d, of "''Loft''"] obtain r2 w2 where
    all2: "status_loop E2 (on_done E2 ''Loft'') (JStr ''op1'') world0 = Some (Inr r2, w2) \<and>
     worldId r2 = world_id_of (get_opt sd ''response'') \<and>
     (canonical_url (vendor E2 (calls w) (ApiWorld (ToString (worldId r2)))) = None \<longrightarrow>
        viewUrl r2 = JStr (default_view_url (worldId r2))) \<and>
     (\<forall>u. canonical_url (vendor E2 (calls w) (ApiWorld (ToString (worldId r2)))) = Some u \<longrightarrow>
        viewUrl r2 = u) \<and>
     new_entries w w2 =
       [(clock w, ApiWorld (ToString (worldId r2)),
         vendor E2 (calls w) (ApiWorld (ToString (worldId r2))))]"
    by (elim exE) (rule that)
  note b1 = all2 [THEN conjunct1]
  note b2 = all2 [THEN conjunct2, THEN conjunct1]
  note b4 = all2 [THEN conjunct2, THEN conjunct2, THEN conjunct2, THEN conjunct1]
  have "canonical_url (vendor E2 (calls w) (ApiWorld (ToString (JStr ''abc123'')))) =
      Some (JStr ''https://marble.worldlabs.ai/world/abc123'')"
    by (simp add: E2_def scripted_def calls_def w_def)
  with b2 b4 wid have "viewUrl r2 = JStr ''https://marble.worldlabs.ai/world/abc123''"
    by simp
  with b1 have B: "\<exists>r w'. status_loop E2 (on_done E2 ''Loft'') (JStr ''op1'') world0 = Some (Inr r, w') \<and>
     viewUrl r = JStr ''https://marble.worldlabs.ai/world/abc123''"
    by (intro exI [of _ r2] exI [of _ w2] conjI)
  from A B show ?thesis unfolding E1_def E2_def sd_def by (rule conjI)
qed


text \<open>
  C4. \<^verbatim>\<open>pollOperation\<close> always returns. When every status answer is a status that is not
  done, it raises \<open>GenerationTimedOut\<close>; it raises that error only once the configured
  time has elapsed; and every status request of a run, whatever its end, is issued while
  less than the configured time has elapsed since the start, so none follows the timeout.
\<close>

theorem poll_timeout:
  "((\<forall>h. prefix (calls w) h \<longrightarrow>
       status_verdict (vendor E h (GetOperation (ToString oid))) = None) \<longrightarrow>
      fst (pollOperation E oid maxWaitMs w) = Inl GenerationTimedOut) \<and>
   (fst (pollOperation E oid maxWaitMs w) = Inl GenerationTimedOut \<longrightarrow>
      maxWaitMs \<le> clock (snd (pollOperation E oid maxWaitMs w)) - clock w) \<and>
   (\<forall>e \<in> set (new_entries w (snd (pollOperation E oid maxWaitMs w))).
      fst (snd e) = GetOperation (ToString oid) \<and> fst e - clock w < maxWaitMs)"
proof -
  let ?c = "GetOperation (ToString oid)"
  obtain r w' where p: "pollOperation_loop E oid (clock w) maxWaitMs w = (r, w')"
    by (cases "pollOperation_loop E oid (clock w) maxWaitMs w")
  then have pp: "pollOperation E oid maxWaitMs w = (r, w')" by (simp add: pollOperation_def)
  note R = poll_run [OF p]
  note r3 = R [THEN conjunct2, THEN conjunct2, THEN conjunct1]
  note r5 = R [THEN conjunct2, THEN conjunct2, THEN conjunct2, THEN conjunct2, THEN conjunct1]
  note r6 = R [THEN conjunct2, THEN conjunct2, THEN conjunct2, THEN conjunct2, THEN conjunct2]
  have a: "(\<forall>h. prefix (calls w) h \<longrightarrow> status_verdict (vendor E h ?c) = None) \<longrightarrow>
      r = Inl GenerationTimedOut"
  proof
    assume H: "\<forall>h. prefix (calls w) h \<longrightarrow> status_verdict (vendor E h ?c) = None"
    show "r = Inl GenerationTimedOut"
    proof (rule ccontr)
      assume "r \<noteq> Inl GenerationTimedOut"
      with r6 have ne: "new_entries w w' \<noteq> []"
        and v: "status_verdict (snd (snd (last (new_entries w w')))) = Some r" by simp_all
      from ne have "last (new_entries w w') \<in> set (new_entries w w')" by simp
      with r3 obtain t h where "last (new_entries w w') = (t, ?c, vendor E h ?c)"
        and "prefix (calls w) h" by blast
      with H have "status_verdict (snd (snd (last (new_entries w w')))) = None" by simp
      with v show False by simp
    qed
  qed
  have b: "r = Inl GenerationTimedOut \<longrightarrow> maxWaitMs \<le> clock w' - clock w"
    using r5 by simp
  have c: "\<forall>e \<in> set (new_entries w w'). fst (snd e) = ?c \<and> fst e - clock w < maxWaitMs"
  proof
    fix e assume "e \<in> set (new_entries w w')"
    with r3 obtain t h where "e = (t, ?c, vendor E h ?c)" and "t - clock w < maxWaitMs"
      by blast
    then show "fst (snd e) = ?c \<and> fst e - clock w < maxWaitMs" by simp
  qed
  from a b c show ?thesis unfolding pp by simp
qed

text \<open>The default of five minutes against a vendor that reports 42 percent forever.\<close>

theorem poll_timeout_witness:
  "fst (pollOperation (scripted [] (Resolved 200 (Json (JObj [(''done'', JBool False),
      (''metadata'', JObj [(''progress_pct'', JNum 42)])])))) (JStr ''op1'') 300000 world0) =
     Inl GenerationTimedOut \<and>
   300000 \<le> clock (snd (pollOperation (scripted [] (Resolved 200 (Json (JObj [(''done'', JBool False),
      (''metadata'', JObj [(''progress_pct'', JNum 42)])])))) (JStr ''op1'') 300000 world0)) -
      clock world0"
proof -
  let ?E = "scripted [] (Resolved 200 (Json (JObj [(''done'', JBool False),
      (''metadata'', JObj [(''progress_pct'', JNum 42)])])))"
  have H: "\<forall>h. prefix (calls world0) h \<longrightarrow>
       status_verdict (vendor ?E h (GetOperation (ToString (JStr ''op1'')))) = None"
    by (simp add: scripted_def status_verdict_def parsed_or_text_def)
  note T = poll_timeout [of world0 ?E "JStr ''op1''" 300000]
  from T [THEN conjunct1] H
  have a: "fst (pollOperation ?E (JStr ''op1'') 300000 world0) = Inl GenerationTimedOut"
    by (rule mp)
  from T [THEN conjunct2, THEN conjunct1] a
  have "300000 \<le> clock (snd (pollOperation ?E (JStr ''op1'') 300000 world0)) - clock world0"
    by (rule mp)
  with a show ?thesis by (rule conjI)
qed

text \<open>
  Claim C5. When the vendor answers a media upload with a status outside 200-299, the
  run ends with \<open>UploadFailed\<close> for that file: the script exits with the error, the
  first web handler responds with status 500 and the vendor's answer as details. The
  failed upload is the last call of the run, so it is not retried, and no generation
  body is submitted.
\<close>

theorem upload_failure_aborts:
  "(main E inp nm draft w = (out, w') \<and>
    (t, MediaUpload p m, Resolved st bd) \<in> set (new_entries w w') \<and> (st < 200 \<or> 299 < st) \<longrightarrow>
      out = Exit1 (UploadFailed p (parsed_or_text bd)) \<and>
      last (new_entries w w') = (t, MediaUpload p m, Resolved st bd) \<and>
      submitted w w' = []) \<and>
   (handler_media E apiKey method b w = (res, w'') \<and>
    (t, MediaUpload p m, Resolved st bd) \<in> set (new_entries w w'') \<and> (st < 200 \<or> 299 < st) \<longrightarrow>
      res = Responded 500 (JObj [(''error'', JStr (''Failed to upload '' @ p)),
               (''details'', parsed_or_text bd)]) \<and>
      last (new_entries w w'') = (t, MediaUpload p m, Resolved st bd) \<and>
      submitted w w'' = [])"
proof (intro conjI impI)
  let ?e = "(t, MediaUpload p m, Resolved st bd)"
  assume A: "main E inp nm draft w = (out, w') \<and> ?e \<in> set (new_entries w w') \<and>
    (st < 200 \<or> 299 < st)"
  then have mn: "main E inp nm draft w = (out, w')" and mem: "?e \<in> set (new_entries w w')"
    and st: "st \<noteq> 200" "st \<noteq> 201" by auto
  from main_run [OF mn] obtain ups gen polls where
    ne: "new_entries w w' = ups @ gen @ polls" and sh: "main_shape out ups gen polls"
    by blast
  note sh' = sh [unfolded main_shape_def]
  note s1 = sh' [THEN conjunct1, unfolded upload_phase_def]
  note s2 = sh' [THEN conjunct2, THEN conjunct1]
  note s3 = sh' [THEN conjunct2, THEN conjunct2, THEN conjunct1]
  note s4 = sh' [THEN conjunct2, THEN conjunct2, THEN conjunct2, THEN conjunct1]
  note s6 = sh' [THEN conjunct2, THEN conjunct2, THEN conjunct2, THEN conjunct2, THEN conjunct2,
      THEN conjunct1]
  have na: "\<not> accepted ?e" using st by simp
  have "?e \<notin> set polls" using s4 by (auto simp: list_all_iff)
  moreover have "?e \<notin> set gen" using s2 by auto
  ultimately have inu: "?e \<in> set ups" using mem ne by auto
  have g0: "gen = []"
  proof (rule ccontr)
    assume "gen \<noteq> []"
    with s2 have "list_all accepted ups" by simp
    with inu na show False by (auto simp: list_all_iff)
  qed
  with s3 have p0: "polls = []" by simp
  from inu na s1 have l: "ups \<noteq> [] \<and> last ups = ?e"
    by (intro only_last [where P = accepted]) simp_all
  have "upload_failure (last ups) = Some (UploadFailed p (parsed_or_text bd))"
    using l st by simp
  with s6 g0 l show "out = Exit1 (UploadFailed p (parsed_or_text bd))" by blast
  show "last (new_entries w w') = ?e" using l by (simp add: ne g0 p0)
  show "submitted w w' = []"
    using s1 by (simp add: submitted_def ne g0 p0 generate_bodies_uploads)
next
  let ?e = "(t, MediaUpload p m, Resolved st bd)"
  assume A: "handler_media E apiKey method b w = (res, w'') \<and> ?e \<in> set (new_entries w w'') \<and>
    (st < 200 \<or> 299 < st)"
  then have h: "handler_media E apiKey method b w = (res, w'')"
    and mem: "?e \<in> set (new_entries w w'')" and st: "st \<noteq> 200" "st \<noteq> 201" by auto
  from handler_media_run [OF h] obtain ups gen where
    all: "new_entries w w'' = ups @ gen \<and> upload_phase ups \<and>
     (gen = [] \<or> list_all accepted ups \<and> (\<exists>t bd out. gen = [(t, WorldsGenerate bd, out)])) \<and>
     (\<forall>t p m st bd. gen = [] \<and> ups \<noteq> [] \<and>
        last ups = (t, MediaUpload p m, Resolved st bd) \<and> st \<noteq> 200 \<and> st \<noteq> 201 \<longrightarrow>
        res = Responded 500 (JObj [(''error'', JStr (''Failed to upload '' @ p)),
                (''details'', parsed_or_text bd)]))"
    by (elim exE) (rule that)
  note ne = all [THEN conjunct1]
  note s1 = all [THEN conjunct2, THEN conjunct1, unfolded upload_phase_def]
  note s2 = all [THEN conjunct2, THEN conjunct2, THEN conjunct1]
  note s3 = all [THEN conjunct2, THEN conjunct2, THEN conjunct2]
  have na: "\<not> accepted ?e" using st by simp
  have "?e \<notin> set gen" using s2 by auto
  then have inu: "?e \<in> set ups" using mem ne by auto
  have g0: "gen = []"
  proof (rule ccontr)
    assume "gen \<noteq> []"
    with s2 have "list_all accepted ups" by simp
    with inu na show False by (auto simp: list_all_iff)
  qed
  from inu na s1 have l: "ups \<noteq> [] \<and> last ups = ?e"
    by (intro only_last [where P = accepted]) simp_all
  with s3 g0 st show "res = Responded 500 (JObj [(''error'', JStr (''Failed to upload '' @ p)),
               (''details'', parsed_or_text bd)])" by blast
  show "last (new_entries w w'') = ?e" using l by (simp add: ne g0)
  show "submitted w w'' = []"
    using s1 by (simp add: submitted_def ne g0 generate_bodies_uploads)
qed

text \<open>The scenario of a single image whose upload the vendor answers with status 413.\<close>

theorem upload_failure_aborts_witness:
  "main (scripted [Resolved 413 (Json (JObj [(''error'', JStr ''too large'')]))] Rejected)
      (ImageInput ''photo.jpg'') ''Loft'' False world0 =
     (Exit1 (UploadFailed ''photo.jpg'' (JObj [(''error'', JStr ''too large'')])),
      snd (main (scripted [Resolved 413 (Json (JObj [(''error'', JStr ''too large'')]))] Rejected)
        (ImageInput ''photo.jpg'') ''Loft'' False world0)) \<and>
   new_entries world0
     (snd (main (scripted [Resolved 413 (Json (JObj [(''error'', JStr ''too large'')]))] Rejected)
        (ImageInput ''photo.jpg'') ''Loft'' False world0)) =
     [(0, MediaUpload ''photo.jpg'' (mimeType ''photo.jpg''),
       Resolved 413 (Json (JObj [(''error'', JStr ''too large'')])))] \<and>
   submitted world0
     (snd (main (scripted [Resolved 413 (Json (JObj [(''error'', JStr ''too large'')]))] Rejected)
        (ImageInput ''photo.jpg'') ''Loft'' False world0)) = [] \<and>
   fst (handler_media (scripted [Resolved 413 (Json (JObj [(''error'', JStr ''too large'')]))] Rejected)
      ''key'' ''POST'' (photos_body [photo ''photo.jpg'' None] ''auto'') world0) =
     Responded 500 (JObj [(''error'', JStr (''Failed to upload '' @ ''photo.jpg'')),
       (''details'', JObj [(''error'', JStr ''too large'')])]) \<and>
   submitted world0
     (snd (handler_media (scripted [Resolved 413 (Json (JObj [(''error'', JStr ''too large'')]))] Rejected)
        ''key'' ''POST'' (photos_body [photo ''photo.jpg'' None] ''auto'') world0)) = []"
proof -
  let ?bd = "Json (JObj [(''error'', JStr ''too large'')])"
  let ?E = "scripted [Resolved 413 ?bd] Rejected"
  let ?m = "main ?E (ImageInput ''photo.jpg'') ''Loft'' False world0"
  let ?b = "photos_body [photo ''photo.jpg'' None] ''auto''"
  let ?h = "handler_media ?E ''key'' ''POST'' ?b world0"
  have tm: "trace (snd ?m) = [(0, MediaUpload ''photo.jpg'' (mimeType ''photo.jpg''), Resolved 413 ?bd)]"
    by (simp add: main_def generate_for_def generateFromImage_def media_ref_def startsWith_http_def
        uploadFileRequest_def apiRequest_def request_def Let_def scripted_def world0_def calls_def
        parsed_or_text_def)
  have nm: "new_entries world0 (snd ?m) =
      [(0, MediaUpload ''photo.jpg'' (mimeType ''photo.jpg''), Resolved 413 ?bd)]"
    unfolding new_entries_def tm by (simp add: world0_def)
  have th: "trace (snd ?h) = [(0, MediaUpload ''photo.jpg'' ''image/jpeg'', Resolved 413 ?bd)]"
    by (simp add: handler_media_def no_images_def photos_body_def photo_def apiRequest_def
        request_def Let_def scripted_def world0_def calls_def parsed_or_text_def split_comma_1_def)
  have nh: "new_entries world0 (snd ?h) =
      [(0, MediaUpload ''photo.jpg'' ''image/jpeg'', Resolved 413 ?bd)]"
    unfolding new_entries_def th by (simp add: world0_def)
  note T = upload_failure_aborts [of ?E "ImageInput ''photo.jpg''" "''Loft''" False world0
      "fst ?m" "snd ?m" 0 "''photo.jpg''" "mimeType ''photo.jpg''" 413 ?bd "''key''" "''POST''" ?b
      "fst ?h" "snd ?h"]
  have a: "fst ?m = Exit1 (UploadFailed ''photo.jpg'' (parsed_or_text ?bd)) \<and>
      last (new_entries world0 (snd ?m)) =
        (0, MediaUpload ''photo.jpg'' (mimeType ''photo.jpg''), Resolved 413 ?bd) \<and>
      submitted world0 (snd ?m) = []"
    by (rule T [THEN conjunct1, THEN mp]) (simp add: nm)
  note T' = upload_failure_aborts [of ?E "ImageInput ''photo.jpg''" "''Loft''" False world0
      "fst ?m" "snd ?m" 0 "''photo.jpg''" "''image/jpeg''" 413 ?bd "''key''" "''POST''" ?b
      "fst ?h" "snd ?h"]
  have b: "fst ?h = Responded 500 (JObj [(''error'', JStr (''Failed to upload '' @ ''photo.jpg'')),
               (''details'', parsed_or_text ?bd)]) \<and>
      last (new_entries world0 (snd ?h)) =
        (0, MediaUpload ''photo.jpg'' ''image/jpeg'', Resolved 413 ?bd) \<and>
      submitted world0 (snd ?h) = []"
    by (rule T' [THEN conjunct2, THEN mp]) (simp add: nh)
  have 1: "?m = (Exit1 (UploadFailed ''photo.jpg'' (JObj [(''error'', JStr ''too large'')])), snd ?m)"
    using a [THEN conjunct1] by (simp add: parsed_or_text_def prod_eq_iff)
  show ?thesis
    using 1 nm a [THEN conjunct2, THEN conjunct2] b [THEN conjunct1] b [THEN conjunct2, THEN conjunct2]
    by (simp add: parsed_or_text_def)
qed



end
